theory Spec2Isabelle
  imports Complex_Main
begin

section \<open>Data model\<close>

text \<open>
  The module \<^verbatim>\<open>src/model_training/process_data.py\<close> works on numpy arrays. An array
  of three axes (batch, row, column) is a list of lists of lists; a fourth, innermost axis
  is the element type: an RGB triple for the colour axis, a list of \<open>nb_labels\<close> numbers
  for the one-hot axis. The arrays the codec allocates come from \<^verbatim>\<open>np.zeros\<close>, whose
  elements are floating-point numbers; the codec only assigns and compares them, never
  computes with them, so they are modelled as reals holding the same values.
\<close>

type_synonym rgb = "real \<times> real \<times> real"
type_synonym 'a batch = "'a list list list"

datatype error =
  ValueError | IOError | IndexError | FileExistsError | FileNotFoundError | PermissionError

definition label_keys :: "rgb list" where
  "label_keys =
     [(255, 255, 255),
      (0, 0, 255),
      (0, 255, 255),
      (0, 255, 0),
      (255, 255, 0),
      (255, 0, 0)]"

definition nb_labels :: nat where
  "nb_labels = length label_keys"

section \<open>Label codec\<close>

text \<open>\<^verbatim>\<open>np.zeros(a.shape[:-1])\<close> and \<^verbatim>\<open>np.zeros(a.shape + [n])\<close>: an array of the
  shape of \<open>a\<close> whose every element is the given zero.\<close>

definition zeros_like :: "'b \<Rightarrow> 'a batch \<Rightarrow> 'b batch" where
  "zeros_like z a = map (map (map (\<lambda>_. z))) a"

text \<open>\<^verbatim>\<open>arr[mask] = v\<close>: the elements under a true mask entry become \<open>v\<close>.\<close>

definition mask_assign :: "bool batch \<Rightarrow> 'a \<Rightarrow> 'a batch \<Rightarrow> 'a batch" where
  "mask_assign msk v arr = map2 (map2 (map2 (\<lambda>m x. if m then v else x))) msk arr"

text \<open>The mask of \<^verbatim>\<open>rgb_to_label_batch\<close>: the three channels compared with the key's.\<close>

definition key_mask :: "rgb batch \<Rightarrow> rgb \<Rightarrow> bool batch" where
  "key_mask rgb_batch key =
     map (map (map (\<lambda>(r, g, b).
       r = fst key \<and> g = fst (snd key) \<and> b = snd (snd key)))) rgb_batch"

text \<open>The loop \<^verbatim>\<open>for label, key in enumerate(label_keys)\<close> of
  \<^verbatim>\<open>rgb_to_label_batch\<close>, over the pairs still to visit.\<close>

fun rgb_to_label_loop :: "(nat \<times> rgb) list \<Rightarrow> rgb batch \<Rightarrow> real batch \<Rightarrow> real batch" where
  "rgb_to_label_loop [] rgb_batch label_batch = label_batch"
| "rgb_to_label_loop ((label, key) # rest) rgb_batch label_batch =
     rgb_to_label_loop rest rgb_batch
       (mask_assign (key_mask rgb_batch key) (real label) label_batch)"

definition rgb_to_label_batch :: "rgb batch \<Rightarrow> real batch" where
  "rgb_to_label_batch rgb_batch =
     rgb_to_label_loop (enumerate 0 label_keys) rgb_batch (zeros_like 0 rgb_batch)"

text \<open>\<^verbatim>\<open>label_batch == label\<close>: the mask of the elements equal to the number \<open>label\<close>.\<close>

definition eq_mask :: "real batch \<Rightarrow> nat \<Rightarrow> bool batch" where
  "eq_mask label_batch label = map (map (map (\<lambda>l. l = real label))) label_batch"

text \<open>\<^verbatim>\<open>arr[:, :, :, label][mask] = v\<close>: channel \<open>label\<close> of the elements under a true
  mask entry becomes \<open>v\<close>.\<close>

definition channel_assign :: "nat \<Rightarrow> bool batch \<Rightarrow> real \<Rightarrow> real list batch \<Rightarrow> real list batch" where
  "channel_assign label msk v arr =
     map2 (map2 (map2 (\<lambda>m x. if m then x[label := v] else x))) msk arr"

text \<open>The loop \<^verbatim>\<open>for label in range(nb_labels)\<close> of \<^verbatim>\<open>label_to_one_hot_batch\<close>.\<close>

fun label_to_one_hot_loop :: "nat list \<Rightarrow> real batch \<Rightarrow> real list batch \<Rightarrow> real list batch" where
  "label_to_one_hot_loop [] label_batch one_hot_batch = one_hot_batch"
| "label_to_one_hot_loop (label # rest) label_batch one_hot_batch =
     label_to_one_hot_loop rest label_batch
       (channel_assign label (eq_mask label_batch label) 1 one_hot_batch)"

definition label_to_one_hot_batch :: "real batch \<Rightarrow> real list batch" where
  "label_to_one_hot_batch label_batch =
     label_to_one_hot_loop [0..<nb_labels] label_batch
       (zeros_like (replicate nb_labels 0) label_batch)"

definition rgb_to_one_hot_batch :: "rgb batch \<Rightarrow> real list batch" where
  "rgb_to_one_hot_batch rgb_batch = label_to_one_hot_batch (rgb_to_label_batch rgb_batch)"

text \<open>The loop \<^verbatim>\<open>for label, key in enumerate(label_keys)\<close> of
  \<^verbatim>\<open>label_to_rgb_batch\<close>; \<^verbatim>\<open>rgb_batch[mask, :] = key\<close> writes the whole triple.\<close>

fun label_to_rgb_loop :: "(nat \<times> rgb) list \<Rightarrow> real batch \<Rightarrow> rgb batch \<Rightarrow> rgb batch" where
  "label_to_rgb_loop [] label_batch rgb_batch = rgb_batch"
| "label_to_rgb_loop ((label, key) # rest) label_batch rgb_batch =
     label_to_rgb_loop rest label_batch
       (mask_assign (eq_mask label_batch label) key rgb_batch)"

definition label_to_rgb_batch :: "real batch \<Rightarrow> rgb batch" where
  "label_to_rgb_batch label_batch =
     label_to_rgb_loop (enumerate 0 label_keys) label_batch (zeros_like (0, 0, 0) label_batch)"

text \<open>
  \<^verbatim>\<open>np.argmax\<close> along the last axis. numpy returns the index of the first occurrence of
  the maximum, and raises \<^verbatim>\<open>ValueError\<close> on an empty axis. The scan keeps the best value
  seen and its index, and replaces them only by a strictly greater value.
\<close>

fun argmax_from :: "real list \<Rightarrow> nat \<Rightarrow> real \<Rightarrow> nat \<Rightarrow> nat" where
  "argmax_from [] i best bi = bi"
| "argmax_from (x # xs) i best bi =
     (if best < x then argmax_from xs (Suc i) x i else argmax_from xs (Suc i) best bi)"

definition argmax :: "real list \<Rightarrow> error + nat" where
  "argmax v = (case v of [] \<Rightarrow> Inl ValueError | x # xs \<Rightarrow> Inr (argmax_from xs 1 x 0))"

text \<open>Applying a function that may fail to every element, stopping at the first failure.\<close>

fun traverse :: "('a \<Rightarrow> error + 'b) \<Rightarrow> 'a list \<Rightarrow> error + 'b list" where
  "traverse f [] = Inr []"
| "traverse f (x # xs) =
     (case f x of
        Inl e \<Rightarrow> Inl e
      | Inr y \<Rightarrow> (case traverse f xs of Inl e \<Rightarrow> Inl e | Inr ys \<Rightarrow> Inr (y # ys)))"

definition one_hot_to_label_batch :: "real list batch \<Rightarrow> error + nat batch" where
  "one_hot_to_label_batch one_hot_batch = traverse (traverse (traverse argmax)) one_hot_batch"

definition one_hot_to_rgb_batch :: "real list batch \<Rightarrow> error + rgb batch" where
  "one_hot_to_rgb_batch one_hot_batch =
     (case one_hot_to_label_batch one_hot_batch of
        Inl e \<Rightarrow> Inl e
      | Inr label_batch \<Rightarrow> Inr (label_to_rgb_batch (map (map (map real)) label_batch)))"

text \<open>A label-index batch is valid when every element is one of the indices
  \<open>0, \<dots>, nb_labels - 1\<close>.\<close>

definition valid_label :: "real \<Rightarrow> bool" where
  "valid_label l = (l \<in> set (map real [0..<nb_labels]))"

definition valid_labels :: "real batch \<Rightarrow> bool" where
  "valid_labels label_batch = list_all (list_all (list_all valid_label)) label_batch"

text \<open>The specification's one-hot vector of a label and its table lookup.\<close>

definition labelToOneHot_spec :: "real \<Rightarrow> real list" where
  "labelToOneHot_spec l =
     (if valid_label l then (replicate nb_labels 0)[nat \<lfloor>l\<rfloor> := 1] else replicate nb_labels 0)"

definition labelToRgb_spec :: "real \<Rightarrow> rgb" where
  "labelToRgb_spec l = (if valid_label l then label_keys ! nat \<lfloor>l\<rfloor> else (0, 0, 0))"

text \<open>The specification's reading of the decoder, pixel by pixel: the index of the first
  key of the table equal to the pixel.\<close>

fun first_key_index :: "rgb \<Rightarrow> rgb list \<Rightarrow> nat option" where
  "first_key_index p [] = None"
| "first_key_index p (k # ks) =
     (if k = p then Some 0 else map_option Suc (first_key_index p ks))"

definition rgbToLabel_spec :: "rgb \<Rightarrow> real" where
  "rgbToLabel_spec p = (case first_key_index p label_keys of None \<Rightarrow> 0 | Some i \<Rightarrow> real i)"

section \<open>Tiler\<close>

text \<open>
  An image is an array of rows of pixels; the element type \<open>'a\<close> is the channel vector of
  a pixel, which the tiler copies whole (\<^verbatim>\<open>im[..., :]\<close>). \<^verbatim>\<open>im.shape[0:2]\<close> is the number
  of rows and the length of a row. A numpy array with no row still has a column count; the
  list of rows cannot hold it, and the model takes 0: no offset is visited on an image
  without rows, whatever its column count.
\<close>

type_synonym 'a image = "'a list list"

definition shape_rows :: "'a image \<Rightarrow> nat" where
  "shape_rows im = length im"

definition shape_cols :: "'a image \<Rightarrow> nat" where
  "shape_cols im = (case im of [] \<Rightarrow> 0 | row # _ \<Rightarrow> length row)"

text \<open>The elements of Python's \<^verbatim>\<open>range(start, stop, step)\<close> for a positive step:
  \<open>start, start + step, \<dots>\<close> as long as they are below \<open>stop\<close>.\<close>

function range_from :: "nat \<Rightarrow> nat \<Rightarrow> nat \<Rightarrow> nat list" where
  "range_from start stop step =
     (if step = 0 \<or> stop \<le> start then []
      else start # range_from (start + step) stop step)"
  by pat_completeness auto
termination
  by (relation "measure (\<lambda>(start, stop, step). stop - start)") auto

declare range_from.simps [simp del]

text \<open>\<^verbatim>\<open>range\<close> raises \<^verbatim>\<open>ValueError\<close> when the step is zero. Sizes and strides are
  natural numbers here: the module's own are 200 and 100.\<close>

definition py_range :: "nat \<Rightarrow> nat \<Rightarrow> nat \<Rightarrow> error + nat list" where
  "py_range start stop step =
     (if step = 0 then Inl ValueError else Inr (range_from start stop step))"

text \<open>\<^verbatim>\<open>im[row:row+sz, col:col+sz, :]\<close>: a slice stops at the end of the array.\<close>

definition slice2 :: "'a image \<Rightarrow> nat \<Rightarrow> nat \<Rightarrow> nat \<Rightarrow> 'a image" where
  "slice2 im row col sz = map (\<lambda>r. take sz (drop col r)) (take sz (drop row im))"

text \<open>The body of the loop over \<open>col\<close>, and the two nested loops of \<^verbatim>\<open>tile_image\<close>;
  \<open>tiles\<close> is the list built so far.\<close>

fun tile_cols :: "'a image \<Rightarrow> nat \<Rightarrow> nat \<Rightarrow> nat list \<Rightarrow> 'a image list \<Rightarrow> 'a image list" where
  "tile_cols im sz row [] tiles = tiles"
| "tile_cols im sz row (col # rest) tiles =
     tile_cols im sz row rest
       (if row + sz \<le> shape_rows im \<and> col + sz \<le> shape_cols im
        then tiles @ [slice2 im row col sz] else tiles)"

fun tile_rows :: "'a image \<Rightarrow> nat \<Rightarrow> nat \<Rightarrow> nat list \<Rightarrow> 'a image list \<Rightarrow> error + 'a image list" where
  "tile_rows im sz stride [] tiles = Inr tiles"
| "tile_rows im sz stride (row # rest) tiles =
     (case py_range 0 (shape_cols im) stride of
        Inl e \<Rightarrow> Inl e
      | Inr cols \<Rightarrow> tile_rows im sz stride rest (tile_cols im sz row cols tiles))"

definition tile_image :: "'a image \<Rightarrow> nat \<Rightarrow> nat \<Rightarrow> error + 'a image list" where
  "tile_image im sz stride =
     (case py_range 0 (shape_rows im) stride of
        Inl e \<Rightarrow> Inl e
      | Inr rows \<Rightarrow> tile_rows im sz stride rows [])"

text \<open>The offsets at which \<^verbatim>\<open>tile_image\<close> emits a tile, in the order of the loops, for an
  image of the given numbers of rows and columns.\<close>

definition tile_offsets :: "nat \<Rightarrow> nat \<Rightarrow> nat \<Rightarrow> nat \<Rightarrow> (nat \<times> nat) list" where
  "tile_offsets rows cols sz stride =
     [(row, col).
        row \<leftarrow> range_from 0 rows stride, col \<leftarrow> range_from 0 cols stride,
        row + sz \<le> rows \<and> col + sz \<le> cols]"

text \<open>The specification's tiler: the sub-image of side \<open>s\<close> at an offset, and the offsets
  that are multiples of the stride and whose window fits, in row-major order.\<close>

definition sub_image :: "'a image \<Rightarrow> nat \<Rightarrow> nat \<Rightarrow> nat \<Rightarrow> 'a image" where
  "sub_image im r c s = map (\<lambda>i. map (\<lambda>j. im ! (r + i) ! (c + j)) [0..<s]) [0..<s]"

definition tile_spec_offsets :: "nat \<Rightarrow> nat \<Rightarrow> nat \<Rightarrow> nat \<Rightarrow> (nat \<times> nat) list" where
  "tile_spec_offsets rows cols s t =
     [(r, c).
        r \<leftarrow> [0..<Suc rows], t dvd r \<and> r + s \<le> rows,
        c \<leftarrow> [0..<Suc cols], t dvd c \<and> c + s \<le> cols]"

section \<open>Paths and the file system\<close>

definition INPUT :: string where "INPUT = ''input''"
definition OUTPUT :: string where "OUTPUT = ''output''"
definition TRAIN :: string where "TRAIN = ''train''"
definition VALIDATION :: string where "VALIDATION = ''validation''"
definition BOGUS_CLASS :: string where "BOGUS_CLASS = ''bogus_class''"

definition tile_size :: nat where "tile_size = 200"
definition tile_stride :: nat where "tile_stride = 100"

text \<open>\<^verbatim>\<open>os.path.join\<close> of two components: an absolute second component replaces the
  first, and a separator is added unless the first ends with one or is empty.\<close>

definition path_join :: "string \<Rightarrow> string \<Rightarrow> string" where
  "path_join a b =
     (if b \<noteq> [] \<and> hd b = CHR ''/'' then b
      else if a = [] \<or> last a = CHR ''/'' then a @ b
      else a @ ''/'' @ b)"

definition data_path :: string where
  "data_path = ''/opt/data/''"

definition raw_data_path :: string where
  "raw_data_path = path_join data_path ''raw_data/ISPRS_semantic_labeling_Vaihingen''"

definition raw_input_path :: string where
  "raw_input_path = path_join raw_data_path ''top''"

definition raw_output_path :: string where
  "raw_output_path = path_join raw_data_path ''gts_for_participants''"

definition proc_data_path :: string where
  "proc_data_path = path_join data_path ''processed_data/vaihingen''"

definition results_path :: string where
  "results_path = path_join data_path ''results''"

definition model_path :: string where
  "model_path = path_join results_path ''models''"

definition eval_path :: string where
  "eval_path = path_join results_path ''eval''"

text \<open>
  The part of the file system the module writes: the directories that exist (besides the
  root), the paths at which the operating system refuses to create a directory, and the
  image files saved, in the order of the writes. The functions \<open>path_split\<close>,
  \<open>mkdir\<close> and \<open>makedirs\<close> below belong to Python's library and the operating
  system, not to the module. They follow the library's code: \<^verbatim>\<open>os.path.split\<close> cuts a
  path at its last separator and strips the separators that end the head;
  \<^verbatim>\<open>os.mkdir\<close> fails with \<^verbatim>\<open>FileNotFoundError\<close> on the empty path or when the parent
  is missing, with \<^verbatim>\<open>FileExistsError\<close> when the directory is there and with
  \<^verbatim>\<open>PermissionError\<close> when the creation is refused; \<^verbatim>\<open>os.makedirs\<close> first creates
  the missing parents, one \<^verbatim>\<open>mkdir\<close> after the other, so that a failure can leave some
  of them behind. An operation returns the exception it raises, if any, together with the
  file system it leaves.
\<close>

record 'a filesystem =
  dirs :: "string list"
  denied :: "string list"
  written :: "(string \<times> 'a image) list"

definition path_split :: "string \<Rightarrow> string \<times> string" where
  "path_split p =
     (let tail = rev (takeWhile (\<lambda>c. c \<noteq> CHR ''/'') (rev p));
          head = rev (dropWhile (\<lambda>c. c \<noteq> CHR ''/'') (rev p))
      in (if head \<noteq> [] \<and> \<not> list_all (\<lambda>c. c = CHR ''/'') head
          then rev (dropWhile (\<lambda>c. c = CHR ''/'') (rev head))
          else head,
          tail))"

text \<open>The first lines of \<^verbatim>\<open>os.makedirs\<close>: a path that ends with a separator is split
  once more.\<close>

definition parent_and_leaf :: "string \<Rightarrow> string \<times> string" where
  "parent_and_leaf name =
     (case path_split name of
        (head, tail) \<Rightarrow> if tail = [] then path_split head else (head, tail))"

definition dir_exists :: "'a filesystem \<Rightarrow> string \<Rightarrow> bool" where
  "dir_exists fs p = ((p \<noteq> [] \<and> list_all (\<lambda>c. c = CHR ''/'') p) \<or> p \<in> set (dirs fs))"

definition mkdir :: "'a filesystem \<Rightarrow> string \<Rightarrow> error option \<times> 'a filesystem" where
  "mkdir fs name =
     (if name = [] then (Some FileNotFoundError, fs)
      else if dir_exists fs name then (Some FileExistsError, fs)
      else if fst (parent_and_leaf name) \<noteq> [] \<and> \<not> dir_exists fs (fst (parent_and_leaf name))
        then (Some FileNotFoundError, fs)
      else if name \<in> set (denied fs) then (Some PermissionError, fs)
      else (None, fs\<lparr>dirs := name # dirs fs\<rparr>))"

function makedirs :: "'a filesystem \<Rightarrow> string \<Rightarrow> error option \<times> 'a filesystem" where
  "makedirs fs name =
     (if fst (parent_and_leaf name) \<noteq> [] \<and> snd (parent_and_leaf name) \<noteq> [] \<and>
         \<not> dir_exists fs (fst (parent_and_leaf name))
      then (case makedirs fs (fst (parent_and_leaf name)) of
              (None, fs') \<Rightarrow>
                if snd (parent_and_leaf name) = ''.'' then (None, fs') else mkdir fs' name
            | (Some e, fs') \<Rightarrow>
                if e = FileExistsError
                then (if snd (parent_and_leaf name) = ''.'' then (None, fs') else mkdir fs' name)
                else (Some e, fs'))
      else mkdir fs name)"
  by pat_completeness auto
termination
proof (relation "measure (\<lambda>(fs, name). length name)")
  show "wf (measure (\<lambda>(fs :: 'a filesystem, name :: string). length name))" by simp
next
  fix fs :: "'a filesystem" and name :: string
  assume "fst (parent_and_leaf name) \<noteq> [] \<and> snd (parent_and_leaf name) \<noteq> [] \<and>
      \<not> dir_exists fs (fst (parent_and_leaf name))"
  then have leaf: "snd (parent_and_leaf name) \<noteq> []" by simp
  have split: "length (fst (path_split p)) + length (snd (path_split p)) \<le> length p" for p
  proof -
    have "length (takeWhile (\<lambda>c. c \<noteq> CHR ''/'') (rev p)) +
        length (dropWhile (\<lambda>c. c \<noteq> CHR ''/'') (rev p)) = length p"
      by (metis length_append length_rev takeWhile_dropWhile_id)
    moreover have "length (dropWhile (\<lambda>c. c = CHR ''/'') xs) \<le> length xs" for xs :: string
      by (rule length_dropWhile_le)
    ultimately show ?thesis
      unfolding path_split_def Let_def
      by (smt (verit) add.commute add_le_cancel_left fst_conv length_rev order.trans snd_conv
          le_refl)
  qed
  obtain h t where ht: "path_split name = (h, t)" by (cases "path_split name")
  from split [of name] ht have l1: "length h + length t \<le> length name" by simp
  have "length (fst (parent_and_leaf name)) < length name"
  proof (cases "t = []")
    case False
    with ht l1 show ?thesis by (cases t) (simp_all add: parent_and_leaf_def)
  next
    case True
    obtain h2 t2 where h2: "path_split h = (h2, t2)" by (cases "path_split h")
    from split [of h] h2 have "length h2 + length t2 \<le> length h" by simp
    moreover from leaf True ht h2 have "t2 \<noteq> []" by (simp add: parent_and_leaf_def)
    ultimately show ?thesis
      using True ht h2 l1 by (cases t2) (simp_all add: parent_and_leaf_def)
  qed
  then show "((fs, fst (parent_and_leaf name)), fs, name) \<in>
      measure (\<lambda>(fs, name). length name)"
    by simp
qed

declare makedirs.simps [simp del]

text \<open>\<^verbatim>\<open>_makedirs\<close>: the call in a \<^verbatim>\<open>try\<close> whose bare \<^verbatim>\<open>except: pass\<close> catches every
  exception. What \<^verbatim>\<open>os.makedirs\<close> did to the file system before it raised
  stays.\<close>

definition priv_makedirs :: "'a filesystem \<Rightarrow> string \<Rightarrow> error option \<times> 'a filesystem" where
  "priv_makedirs fs path =
     (case makedirs fs path of
        (Some e, fs') \<Rightarrow> (None, fs')
      | (None, fs') \<Rightarrow> (None, fs'))"

section \<open>Double-precision arithmetic\<close>

text \<open>
  Python's \<^verbatim>\<open>float\<close> is the IEEE 754 double. A finite double is a rational number; an
  operation returns the exact result rounded to the nearest number of 53 significant
  bits, a tie going to the even significand. \<open>floor_log2 x\<close> is the exponent \<open>e\<close> with
  \<open>2 ^ e \<le> x < 2 ^ (e + 1)\<close>. The numbers of the module (file counts, ratios and their
  products) are far inside the range of the normal doubles; overflow and subnormal
  numbers are not modelled.
\<close>

function log2_up :: "rat \<Rightarrow> nat" where
  "log2_up x = (if x < 2 then 0 else Suc (log2_up (x / 2)))"
  by pat_completeness auto
termination
proof (relation "measure (\<lambda>x. nat \<lfloor>x\<rfloor>)")
  show "wf (measure (\<lambda>x::rat. nat \<lfloor>x\<rfloor>))" by simp
next
  fix x :: rat assume "\<not> x < 2"
  then have "x / 2 \<le> x - 1" by simp
  then have "\<lfloor>x / 2\<rfloor> \<le> \<lfloor>x - 1\<rfloor>" by (rule floor_mono)
  moreover have "0 < \<lfloor>x\<rfloor>" using \<open>\<not> x < 2\<close> by simp
  ultimately show "(x / 2, x) \<in> measure (\<lambda>x. nat \<lfloor>x\<rfloor>)" by simp
qed

function log2_down :: "rat \<Rightarrow> nat" where
  "log2_down x = (if x \<le> 0 \<or> 1 \<le> x then 0 else Suc (log2_down (2 * x)))"
  by pat_completeness auto
termination
proof (relation "measure (\<lambda>x. nat \<lceil>1 / x\<rceil>)")
  show "wf (measure (\<lambda>x::rat. nat \<lceil>1 / x\<rceil>))" by simp
next
  fix x :: rat assume "\<not> (x \<le> 0 \<or> 1 \<le> x)"
  then have x: "0 < x" "x < 1" by simp_all
  then have y: "1 < 1 / x" by simp
  then have c: "2 \<le> \<lceil>1 / x\<rceil>" by linarith
  have "1 / (2 * x) = (1 / x) / 2" by simp
  also have "\<dots> \<le> of_int \<lceil>1 / x\<rceil> / 2" by (simp add: divide_right_mono)
  also have "\<dots> \<le> of_int (\<lceil>1 / x\<rceil> - 1)" using c by simp
  finally have "\<lceil>1 / (2 * x)\<rceil> \<le> \<lceil>1 / x\<rceil> - 1" by (rule ceiling_le)
  with c have "nat \<lceil>1 / (2 * x)\<rceil> < nat \<lceil>1 / x\<rceil>" by linarith
  then show "(2 * x, x) \<in> measure (\<lambda>x. nat \<lceil>1 / x\<rceil>)" by simp
qed

declare log2_up.simps [simp del] log2_down.simps [simp del]

definition floor_log2 :: "rat \<Rightarrow> int" where
  "floor_log2 x = (if 1 \<le> x then int (log2_up x) else - int (log2_down x))"

definition round_half_even :: "rat \<Rightarrow> int" where
  "round_half_even q =
     (let f = \<lfloor>q\<rfloor>; d = q - of_int f
      in if d < 1 / 2 then f else if 1 / 2 < d then f + 1 else if even f then f else f + 1)"

definition double_round :: "rat \<Rightarrow> rat" where
  "double_round x =
     (if x = 0 then 0
      else let a = \<bar>x\<bar>; u = 2 powi (floor_log2 a - 52)
           in sgn x * of_int (round_half_even (a / u)) * u)"

text \<open>A decimal literal denotes the double nearest to it; an \<^verbatim>\<open>int\<close> that meets a
  \<^verbatim>\<open>float\<close> in a product is converted first; the product is rounded.\<close>

definition float_literal :: "rat \<Rightarrow> rat" where
  "float_literal q = double_round q"

definition float_of_nat :: "nat \<Rightarrow> rat" where
  "float_of_nat n = double_round (of_nat n)"

definition float_mul :: "rat \<Rightarrow> rat \<Rightarrow> rat" where
  "float_mul a b = double_round (a * b)"

definition train_ratio :: rat where
  "train_ratio = float_literal (75 / 100)"

section \<open>Dataset partitioner\<close>

text \<open>\<^verbatim>\<open>str.endswith\<close>.\<close>

definition endswith :: "string \<Rightarrow> string \<Rightarrow> bool" where
  "endswith s suffix =
     (length suffix \<le> length s \<and> drop (length s - length suffix) s = suffix)"

text \<open>\<^verbatim>\<open>int(x)\<close> of a float truncates towards zero.\<close>

definition py_int :: "rat \<Rightarrow> int" where
  "py_int x = (if 0 \<le> x then \<lfloor>x\<rfloor> else \<lceil>x\<rceil>)"

text \<open>The position a slice bound \<open>k\<close> denotes in a list of length \<open>n\<close>: a negative bound
  counts from the end, and every bound is clipped to the list.\<close>

definition slice_index :: "int \<Rightarrow> nat \<Rightarrow> nat" where
  "slice_index k n = (if k < 0 then nat (int n + k) else min (nat k) n)"

definition slice_to :: "'a list \<Rightarrow> int \<Rightarrow> 'a list" where
  "slice_to xs k = take (slice_index k (length xs)) xs"

definition slice_from :: "'a list \<Rightarrow> int \<Rightarrow> 'a list" where
  "slice_from xs k = drop (slice_index k (length xs)) xs"

text \<open>The split of \<^verbatim>\<open>process_data\<close>: \<^verbatim>\<open>nb_train_files = int(nb_files * train_ratio)\<close>,
  \<^verbatim>\<open>file_names[0:nb_train_files]\<close> and \<^verbatim>\<open>file_names[nb_train_files:]\<close>, with the ratio, a
  double, as a parameter.\<close>

definition split_file_names :: "rat \<Rightarrow> string list \<Rightarrow> string list \<times> string list" where
  "split_file_names ratio file_names =
     (let nb_files = length file_names;
          nb_train_files = py_int (float_mul (float_of_nat nb_files) ratio)
      in (slice_to file_names nb_train_files, slice_from file_names nb_train_files))"

text \<open>\<^verbatim>\<open>'{}'.format(n)\<close> of a natural number: its decimal digits.\<close>

definition digit_char :: "nat \<Rightarrow> char" where
  "digit_char d = char_of (48 + d)"

function str_nat :: "nat \<Rightarrow> string" where
  "str_nat n = (if n < 10 then [digit_char n] else str_nat (n div 10) @ [digit_char (n mod 10)])"
  by pat_completeness auto
termination
  by (relation "measure id") auto

declare str_nat.simps [simp del]

text \<open>
  What \<^verbatim>\<open>load_image\<close> returns, \<^verbatim>\<open>np.array(Image.open(file_path))\<close>, has two axes for a
  file of one channel and three axes for a file of several. A raw data directory is the
  list of its entries, a file name and the array the file holds, in the order in which
  \<^verbatim>\<open>listdir\<close> returns them; \<^verbatim>\<open>load_image\<close> fails when the directory has no file of the
  name.
\<close>

datatype 'c array = Array2 "'c image" | Array3 "'c list image"

type_synonym 'c directory = "(string \<times> 'c array) list"

definition load_image :: "'c directory \<Rightarrow> string \<Rightarrow> error + 'c array" where
  "load_image dir file_name =
     (case map_of dir file_name of None \<Rightarrow> Inl IOError | Some arr \<Rightarrow> Inr arr)"

text \<open>
  \<^verbatim>\<open>tile_image\<close> on a loaded array. On three axes it is the tiler above. On two axes the
  shape and the loops are the same, and the slice \<^verbatim>\<open>im[row:row+size, col:col+size, :]\<close> of
  the first window that fits raises \<^verbatim>\<open>IndexError\<close>: the array has no third axis.
\<close>

definition tile_array :: "'c array \<Rightarrow> nat \<Rightarrow> nat \<Rightarrow> error + 'c list image list" where
  "tile_array arr sz stride =
     (case arr of
        Array3 im \<Rightarrow> tile_image im sz stride
      | Array2 im \<Rightarrow>
          (case tile_image im sz stride of
             Inl e \<Rightarrow> Inl e
           | Inr [] \<Rightarrow> Inr []
           | Inr (tile # tiles) \<Rightarrow> Inl IndexError))"

text \<open>
  \<^verbatim>\<open>save_image\<close>: the image library opens the file for writing, which fails with
  \<^verbatim>\<open>FileNotFoundError\<close> when the directory of the path does not exist; the empty
  directory part is the current directory. On a tile of three axes with 8-bit channels,
  \<^verbatim>\<open>np.squeeze\<close> and \<^verbatim>\<open>astype(np.uint8)\<close> change nothing.
\<close>

definition save_image :: "'a filesystem \<Rightarrow> string \<Rightarrow> 'a image \<Rightarrow> error option \<times> 'a filesystem" where
  "save_image fs file_path im =
     (if fst (path_split file_path) = [] \<or> dir_exists fs (fst (path_split file_path))
      then (None, fs\<lparr>written := written fs @ [(file_path, im)]\<rparr>)
      else (Some FileNotFoundError, fs))"

text \<open>The loop over the zipped tile lists in \<^verbatim>\<open>_process_data\<close>: it returns the exception
  raised, if any, the counter \<^verbatim>\<open>proc_file_index\<close> and the file system.\<close>

fun save_tile_pairs ::
  "string \<Rightarrow> string \<Rightarrow> ('a image \<times> 'a image) list \<Rightarrow> nat \<Rightarrow> 'a filesystem
     \<Rightarrow> error option \<times> nat \<times> 'a filesystem" where
  "save_tile_pairs proc_input_path proc_output_path [] proc_file_index fs =
     (None, proc_file_index, fs)"
| "save_tile_pairs proc_input_path proc_output_path ((input_tile, output_tile) # rest)
     proc_file_index fs =
     (let proc_file_name = str_nat proc_file_index @ ''.png''
      in case save_image fs (path_join proc_input_path proc_file_name) input_tile of
           (Some e, fs1) \<Rightarrow> (Some e, proc_file_index, fs1)
         | (None, fs1) \<Rightarrow>
        (case save_image fs1 (path_join proc_output_path proc_file_name) output_tile of
           (Some e, fs2) \<Rightarrow> (Some e, proc_file_index, fs2)
         | (None, fs2) \<Rightarrow>
             save_tile_pairs proc_input_path proc_output_path rest (proc_file_index + 1) fs2))"

text \<open>The loop \<^verbatim>\<open>for file_name in file_names\<close> of \<^verbatim>\<open>_process_data\<close>. An exception of
  a load, of the tiler or of a save ends the loop; the files written before it stay.\<close>

fun process_files ::
  "'c directory \<Rightarrow> 'c directory \<Rightarrow> string \<Rightarrow> string \<Rightarrow> string list \<Rightarrow> nat
     \<Rightarrow> 'c list filesystem \<Rightarrow> error option \<times> nat \<times> 'c list filesystem" where
  "process_files raw_output raw_input proc_input_path proc_output_path [] proc_file_index fs =
     (None, proc_file_index, fs)"
| "process_files raw_output raw_input proc_input_path proc_output_path (file_name # rest)
     proc_file_index fs =
     (case load_image raw_output file_name of
        Inl e \<Rightarrow> (Some e, proc_file_index, fs)
      | Inr output_im \<Rightarrow>
     (case load_image raw_input file_name of
        Inl e \<Rightarrow> (Some e, proc_file_index, fs)
      | Inr input_im \<Rightarrow>
     (case tile_array input_im tile_size tile_stride of
        Inl e \<Rightarrow> (Some e, proc_file_index, fs)
      | Inr input_tiles \<Rightarrow>
     (case tile_array output_im tile_size tile_stride of
        Inl e \<Rightarrow> (Some e, proc_file_index, fs)
      | Inr output_tiles \<Rightarrow>
     (case save_tile_pairs proc_input_path proc_output_path (zip input_tiles output_tiles)
             proc_file_index fs of
        (Some e, proc_file_index', fs') \<Rightarrow> (Some e, proc_file_index', fs')
      | (None, proc_file_index', fs') \<Rightarrow>
          process_files raw_output raw_input proc_input_path proc_output_path rest
            proc_file_index' fs')))))"

definition proc_input_path :: "string \<Rightarrow> string" where
  "proc_input_path partition_name =
     path_join (path_join (path_join proc_data_path partition_name) INPUT) BOGUS_CLASS"

definition proc_output_path :: "string \<Rightarrow> string" where
  "proc_output_path partition_name =
     path_join (path_join (path_join proc_data_path partition_name) OUTPUT) BOGUS_CLASS"

text \<open>\<^verbatim>\<open>_process_data\<close>, the inner function of \<^verbatim>\<open>process_data\<close>.\<close>

definition priv_process_data ::
  "'c directory \<Rightarrow> 'c directory \<Rightarrow> string list \<Rightarrow> string \<Rightarrow> 'c list filesystem
     \<Rightarrow> error option \<times> 'c list filesystem" where
  "priv_process_data raw_output raw_input file_names partition_name fs =
     (case priv_makedirs fs (proc_input_path partition_name) of
        (Some e, fs1) \<Rightarrow> (Some e, fs1)
      | (None, fs1) \<Rightarrow>
     (case priv_makedirs fs1 (proc_output_path partition_name) of
        (Some e, fs2) \<Rightarrow> (Some e, fs2)
      | (None, fs2) \<Rightarrow>
     (case process_files raw_output raw_input (proc_input_path partition_name)
             (proc_output_path partition_name) file_names 0 fs2 of
        (r, proc_file_index, fs3) \<Rightarrow> (r, fs3))))"

text \<open>\<^verbatim>\<open>process_data\<close>: the names of the label directory that end in \<^verbatim>\<open>.tif\<close>, the
  split, and the two partitions, train first.\<close>

definition tif_file_names :: "'c directory \<Rightarrow> string list" where
  "tif_file_names raw_output =
     filter (\<lambda>file_name. endswith file_name ''.tif'') (map fst raw_output)"

definition process_data ::
  "'c directory \<Rightarrow> 'c directory \<Rightarrow> 'c list filesystem \<Rightarrow> error option \<times> 'c list filesystem" where
  "process_data raw_output raw_input fs =
     (let file_names = tif_file_names raw_output;
          (train_file_names, validation_file_names) = split_file_names train_ratio file_names
      in case priv_process_data raw_output raw_input train_file_names TRAIN fs of
           (Some e, fs') \<Rightarrow> (Some e, fs')
         | (None, fs') \<Rightarrow>
             priv_process_data raw_output raw_input validation_file_names VALIDATION fs')"

text \<open>
  What the specification says of the files written for a partition. A file contributes
  the tiles of the three-axis array it holds (none when it is missing or holds two axes),
  each at an offset of the tiler; the tile pairs of a partition are the zipped tiles of
  its files, file after file, and their positions the zipped offsets; the \<open>n\<close>-th pair
  is saved as \<open>n.png\<close> in the input and in the output directory.
\<close>

definition file_image :: "'c directory \<Rightarrow> string \<Rightarrow> 'c list image" where
  "file_image dir file_name =
     (case map_of dir file_name of Some (Array3 im) \<Rightarrow> im | _ \<Rightarrow> [])"

definition image_offsets :: "'a image \<Rightarrow> (nat \<times> nat) list" where
  "image_offsets im = tile_offsets (shape_rows im) (shape_cols im) tile_size tile_stride"

definition image_tiles :: "'a image \<Rightarrow> 'a image list" where
  "image_tiles im = map (\<lambda>(row, col). slice2 im row col tile_size) (image_offsets im)"

definition file_offsets :: "'c directory \<Rightarrow> string \<Rightarrow> (nat \<times> nat) list" where
  "file_offsets dir file_name = image_offsets (file_image dir file_name)"

definition file_tiles :: "'c directory \<Rightarrow> string \<Rightarrow> 'c list image list" where
  "file_tiles dir file_name = image_tiles (file_image dir file_name)"

definition tile_pairs ::
  "'c directory \<Rightarrow> 'c directory \<Rightarrow> string list \<Rightarrow> ('c list image \<times> 'c list image) list" where
  "tile_pairs raw_output raw_input file_names =
     concat (map (\<lambda>file_name.
       zip (file_tiles raw_input file_name) (file_tiles raw_output file_name)) file_names)"

definition paired_positions ::
  "'c directory \<Rightarrow> 'c directory \<Rightarrow> string list \<Rightarrow> (string \<times> (nat \<times> nat) \<times> (nat \<times> nat)) list" where
  "paired_positions raw_output raw_input file_names =
     concat (map (\<lambda>file_name.
       map (Pair file_name)
         (zip (file_offsets raw_input file_name) (file_offsets raw_output file_name)))
       file_names)"

definition pair_writes ::
  "string \<Rightarrow> string \<Rightarrow> nat \<Rightarrow> ('a image \<times> 'a image) list \<Rightarrow> (string \<times> 'a image) list" where
  "pair_writes input_dir output_dir start pairs =
     concat (map (\<lambda>(n, input_tile, output_tile).
       [(path_join input_dir (str_nat n @ ''.png''), input_tile),
        (path_join output_dir (str_nat n @ ''.png''), output_tile)])
       (enumerate start pairs))"

definition partition_writes ::
  "'c directory \<Rightarrow> 'c directory \<Rightarrow> string list \<Rightarrow> string \<Rightarrow> (string \<times> 'c list image) list" where
  "partition_writes raw_output raw_input file_names partition_name =
     concat (map (\<lambda>(n, file_name, (input_row, input_col), (output_row, output_col)).
       [(path_join (proc_input_path partition_name) (str_nat n @ ''.png''),
         slice2 (file_image raw_input file_name) input_row input_col tile_size),
        (path_join (proc_output_path partition_name) (str_nat n @ ''.png''),
         slice2 (file_image raw_output file_name) output_row output_col tile_size)])
       (enumerate 0 (paired_positions raw_output raw_input file_names)))"

definition same_shape :: "'a image \<Rightarrow> 'a image \<Rightarrow> bool" where
  "same_shape a b = (shape_rows a = shape_rows b \<and> shape_cols a = shape_cols b)"

text \<open>The paired images of the files have equal dimensions; every file holds a
  three-axis array in both directories; the two directories of a partition exist once
  \<^verbatim>\<open>_process_data\<close> has called \<^verbatim>\<open>_makedirs\<close> for them.\<close>

definition matched :: "'c directory \<Rightarrow> 'c directory \<Rightarrow> string list \<Rightarrow> bool" where
  "matched raw_output raw_input file_names =
     list_all (\<lambda>file_name.
       same_shape (file_image raw_input file_name) (file_image raw_output file_name)) file_names"

definition holds_colour :: "'c directory \<Rightarrow> string \<Rightarrow> bool" where
  "holds_colour dir file_name =
     (case map_of dir file_name of Some (Array3 im) \<Rightarrow> True | _ \<Rightarrow> False)"

definition colour_loadable :: "'c directory \<Rightarrow> 'c directory \<Rightarrow> string list \<Rightarrow> bool" where
  "colour_loadable raw_output raw_input file_names =
     list_all (\<lambda>file_name.
       holds_colour raw_output file_name \<and> holds_colour raw_input file_name) file_names"

definition after_makedirs :: "'a filesystem \<Rightarrow> string \<Rightarrow> 'a filesystem" where
  "after_makedirs fs partition_name =
     snd (priv_makedirs (snd (priv_makedirs fs (proc_input_path partition_name)))
            (proc_output_path partition_name))"

definition partition_ready :: "'a filesystem \<Rightarrow> string \<Rightarrow> bool" where
  "partition_ready fs partition_name =
     (dir_exists (after_makedirs fs partition_name) (proc_input_path partition_name) \<and>
      dir_exists (after_makedirs fs partition_name) (proc_output_path partition_name))"

text \<open>Reading a decimal numeral back, to show that distinct counters give distinct file
  names.\<close>

definition digit_val :: "char \<Rightarrow> nat" where
  "digit_val c = of_char c - 48"

definition nat_of_str :: "string \<Rightarrow> nat" where
  "nat_of_str cs = foldl (\<lambda>a c. 10 * a + digit_val c) 0 cs"

section \<open>Inputs of the concrete cases\<close>

text \<open>An empty file system, and one in which the creation of the model directory is
  refused.\<close>

definition empty_fs :: "nat list filesystem" where
  "empty_fs = \<lparr>dirs = [], denied = [], written = []\<rparr>"

definition denied_fs :: "nat list filesystem" where
  "denied_fs = \<lparr>dirs = [], denied = [model_path], written = []\<rparr>"



text \<open>
  The same dimensions, with pixels that tell the tiles apart. The input image is
  \<open>[1, 1, 1]\<close> in its first 100 columns and \<open>[2, 2, 2]\<close> in the other 200; the label
  image is \<open>[255, 255, 255]\<close> in its first 100 rows and \<open>[0, 0, 255]\<close> in the other 200.
\<close>

definition striped_raw_input :: "nat directory" where
  "striped_raw_input =
     [(''a.tif'',
       Array3 (replicate 300 (replicate 100 [1, 1, 1] @ replicate 200 [2, 2, 2])))]"

definition striped_raw_output :: "nat directory" where
  "striped_raw_output =
     [(''a.tif'',
       Array3 (replicate 100 (replicate 200 [255, 255, 255]) @
               replicate 200 (replicate 200 [0, 0, 255])))]"

text \<open>Two files whose input and label images have the same dimensions: the first of 200
  by 300 pixels (two tiles), the second of 200 by 200 (one tile).\<close>

definition matched_raw_input :: "nat directory" where
  "matched_raw_input =
     [(''a.tif'', Array3 (replicate 200 (replicate 300 [1, 1, 1]))),
      (''b.tif'', Array3 (replicate 200 (replicate 200 [2, 2, 2])))]"

definition matched_raw_output :: "nat directory" where
  "matched_raw_output =
     [(''a.tif'', Array3 (replicate 200 (replicate 300 [255, 0, 0]))),
      (''b.tif'', Array3 (replicate 200 (replicate 200 [0, 0, 255])))]"

text \<open>A label directory of four \<^verbatim>\<open>.tif\<close> files and one other file, with the input
  directory of the same four; every image has 200 by 200 pixels, hence one tile, and the
  pixels of the input images tell the files apart.\<close>

definition four_raw_output :: "nat directory" where
  "four_raw_output =
     [(''a.tif'', Array3 (replicate 200 (replicate 200 [255, 0, 0]))),
      (''b.tif'', Array3 (replicate 200 (replicate 200 [255, 0, 0]))),
      (''notes.txt'', Array2 []),
      (''c.tif'', Array3 (replicate 200 (replicate 200 [255, 0, 0]))),
      (''d.tif'', Array3 (replicate 200 (replicate 200 [255, 0, 0])))]"

definition four_raw_input :: "nat directory" where
  "four_raw_input =
     [(''a.tif'', Array3 (replicate 200 (replicate 200 [1, 1, 1]))),
      (''b.tif'', Array3 (replicate 200 (replicate 200 [2, 2, 2]))),
      (''c.tif'', Array3 (replicate 200 (replicate 200 [3, 3, 3]))),
      (''d.tif'', Array3 (replicate 200 (replicate 200 [4, 4, 4])))]"

section \<open>Batch pipeline adapter\<close>

text \<open>
  \<^verbatim>\<open>make_data_generator\<close> configures a directory iterator of the Keras library and
  returns it. The library is outside the module: \<open>flow\<close> stands for it, giving for a
  request (the directory read and the options set) the batches the iterator yields, the
  \<open>k\<close>-th call of \<^verbatim>\<open>next\<close> giving batch \<open>k\<close>. A batch is an array of pixels of three
  channels. The options \<^verbatim>\<open>augment\<close> and \<^verbatim>\<open>scale\<close> only select parameters of the
  library (the flips, the normalisation and its fit on a sample batch); they are recorded
  in the request and not interpreted.
\<close>

record gen_request =
  gen_path :: string
  gen_batch_size :: nat
  gen_shuffle :: bool
  gen_augment :: bool
  gen_scale :: bool

type_synonym generator = "nat \<Rightarrow> rgb batch"

definition make_data_generator ::
  "(gen_request \<Rightarrow> generator) \<Rightarrow> string \<Rightarrow> nat \<Rightarrow> bool \<Rightarrow> bool \<Rightarrow> bool \<Rightarrow> generator" where
  "make_data_generator flow path batch_size shuffle augment scale =
     flow \<lparr>gen_path = path, gen_batch_size = batch_size, gen_shuffle = shuffle,
           gen_augment = augment, gen_scale = scale\<rparr>"

text \<open>\<^verbatim>\<open>make_input_output_generator\<close>: \<^verbatim>\<open>zip\<close> of two generators yields, as its \<open>k\<close>-th
  element, the pair of their \<open>k\<close>-th elements. The source computes \<^verbatim>\<open>output_path\<close> and
  passes \<^verbatim>\<open>input_path\<close> to both generators.\<close>

definition make_input_output_generator ::
  "(gen_request \<Rightarrow> generator) \<Rightarrow> string \<Rightarrow> nat \<Rightarrow> nat \<Rightarrow> rgb batch \<times> real list batch" where
  "make_input_output_generator flow base_path batch_size =
     (let input_path = path_join base_path INPUT;
          input_gen = make_data_generator flow input_path batch_size True True True;
          output_path = path_join base_path OUTPUT;
          output_gen' = make_data_generator flow input_path batch_size True True False;
          output_gen = (\<lambda>k. rgb_to_one_hot_batch (output_gen' k))
      in (\<lambda>k. (input_gen k, output_gen k)))"

text \<open>A train partition whose output directory holds a label tile of one Clutter pixel
  and whose input directory holds an image tile of one pixel of another colour.\<close>

definition train_flow :: "gen_request \<Rightarrow> generator" where
  "train_flow request k =
     (if gen_path request = path_join (path_join proc_data_path TRAIN) OUTPUT
      then [[[(255, 0, 0)]]]
      else [[[(12, 34, 56)]]])"

section \<open>The loops seen from one array element\<close>

text \<open>Each loop of the codec treats the array elements independently. These functions
  run a loop on one element; the lemmas \<open>*_loop_pointwise\<close> below prove that the array
  loops do exactly this at every element.\<close>

fun rgb_to_label_pixel :: "(nat \<times> rgb) list \<Rightarrow> rgb \<Rightarrow> real \<Rightarrow> real" where
  "rgb_to_label_pixel [] p l = l"
| "rgb_to_label_pixel ((label, key) # rest) p l =
     rgb_to_label_pixel rest p (if p = key then real label else l)"

fun label_to_one_hot_pixel :: "nat list \<Rightarrow> real \<Rightarrow> real list \<Rightarrow> real list" where
  "label_to_one_hot_pixel [] l v = v"
| "label_to_one_hot_pixel (label # rest) l v =
     label_to_one_hot_pixel rest l (if l = real label then v[label := 1] else v)"

fun label_to_rgb_pixel :: "(nat \<times> rgb) list \<Rightarrow> real \<Rightarrow> rgb \<Rightarrow> rgb" where
  "label_to_rgb_pixel [] l c = c"
| "label_to_rgb_pixel ((label, key) # rest) l c =
     label_to_rgb_pixel rest l (if l = real label then key else c)"

section \<open>Facts about the label codec\<close>

lemma map2_same:
  "map2 f (map g xs) (map h xs) = map (\<lambda>x. f (g x) (h x)) xs"
  by (induction xs) simp_all

lemma mask_assign_pointwise:
  "mask_assign (map (map (map m)) a) v (map (map (map g)) a) =
     map (map (map (\<lambda>x. if m x then v else g x))) a"
  unfolding mask_assign_def by (simp add: map2_same)

lemma key_mask_pointwise:
  "key_mask a key = map (map (map (\<lambda>p. p = key))) a"
  unfolding key_mask_def by (cases key) (auto simp: fun_eq_iff)

lemma rgb_to_label_loop_pointwise:
  "rgb_to_label_loop kvs a (map (map (map g)) a) =
     map (map (map (\<lambda>p. rgb_to_label_pixel kvs p (g p)))) a"
proof (induction kvs arbitrary: g)
  case Nil
  show ?case by simp
next
  case (Cons kv kvs)
  obtain label key where kv: "kv = (label, key)" by (cases kv)
  show ?case
    unfolding kv rgb_to_label_loop.simps key_mask_pointwise mask_assign_pointwise Cons.IH
    by simp
qed

lemma first_key_index_None: "first_key_index p ks = None \<longleftrightarrow> p \<notin> set ks"
  by (induction ks) auto

lemma rgb_to_label_pixel_distinct:
  "distinct ks \<Longrightarrow>
   rgb_to_label_pixel (enumerate n ks) p l =
     (case first_key_index p ks of None \<Rightarrow> l | Some i \<Rightarrow> real (n + i))"
proof (induction ks arbitrary: n l)
  case Nil
  show ?case by simp
next
  case (Cons k ks)
  then have d: "distinct ks" and k: "k \<notin> set ks" by simp_all
  show ?case
  proof (cases "p = k")
    case True
    with k have "first_key_index p ks = None" by (simp add: first_key_index_None)
    then have "rgb_to_label_pixel (enumerate (Suc n) ks) p (real n) = real n"
      by (simp add: Cons.IH [OF d])
    with True show ?thesis by simp
  next
    case False
    then show ?thesis by (auto simp: Cons.IH [OF d] split: option.splits)
  qed
qed

lemma distinct_label_keys: "distinct label_keys"
  by (simp add: label_keys_def)

lemma rgb_to_label_batch_pointwise:
  "rgb_to_label_batch a = map (map (map rgbToLabel_spec)) a"
proof -
  have "rgb_to_label_batch a =
      map (map (map (\<lambda>p. rgb_to_label_pixel (enumerate 0 label_keys) p 0))) a"
    unfolding rgb_to_label_batch_def zeros_like_def
    by (rule rgb_to_label_loop_pointwise)
  also have "\<dots> = map (map (map rgbToLabel_spec)) a"
    by (simp add: rgb_to_label_pixel_distinct [OF distinct_label_keys] rgbToLabel_spec_def
        cong: option.case_cong)
  finally show ?thesis .
qed

subsection \<open>The one-hot encoder, element by element\<close>

lemma channel_assign_pointwise:
  "channel_assign label (map (map (map m)) a) v (map (map (map g)) a) =
     map (map (map (\<lambda>x. if m x then (g x)[label := v] else g x))) a"
  unfolding channel_assign_def by (simp add: map2_same)

lemma label_to_one_hot_loop_pointwise:
  "label_to_one_hot_loop ls a (map (map (map g)) a) =
     map (map (map (\<lambda>l. label_to_one_hot_pixel ls l (g l)))) a"
proof (induction ls arbitrary: g)
  case Nil
  show ?case by simp
next
  case (Cons label ls)
  show ?case
    unfolding label_to_one_hot_loop.simps eq_mask_def channel_assign_pointwise Cons.IH
    by simp
qed

lemma length_label_to_one_hot_pixel [simp]:
  "length (label_to_one_hot_pixel ls l v) = length v"
  by (induction ls arbitrary: v) simp_all

lemma nth_label_to_one_hot_pixel:
  "j < length v \<Longrightarrow>
   label_to_one_hot_pixel ls l v ! j = (if j \<in> set ls \<and> l = real j then 1 else v ! j)"
proof (induction ls arbitrary: v)
  case Nil
  show ?case by simp
next
  case (Cons a ls)
  then show ?case by (auto simp: nth_list_update)
qed

lemma label_to_one_hot_pixel_upt:
  "label_to_one_hot_pixel [0..<n] l (replicate n 0) =
     map (\<lambda>j. if l = real j then 1 else 0) [0..<n]"
  by (rule nth_equalityI) (simp_all add: nth_label_to_one_hot_pixel)

lemma valid_label_iff: "valid_label l \<longleftrightarrow> (\<exists>k<nb_labels. l = real k)"
  unfolding valid_label_def by auto

lemma labelToOneHot_spec_eq:
  "labelToOneHot_spec l = map (\<lambda>j. if l = real j then 1 else 0) [0..<nb_labels]"
proof (cases "valid_label l")
  case True
  then obtain k where k: "k < nb_labels" "l = real k" by (auto simp: valid_label_iff)
  have "(replicate nb_labels (0::real))[k := 1] =
      map (\<lambda>j. if real k = real j then 1 else 0) [0..<nb_labels]"
    by (rule nth_equalityI) (auto simp: nth_list_update)
  with True k show ?thesis by (simp add: labelToOneHot_spec_def)
next
  case False
  then have "\<And>j. j < nb_labels \<Longrightarrow> l \<noteq> real j" by (auto simp: valid_label_iff)
  then have "map (\<lambda>j. if l = real j then 1 else 0) [0..<nb_labels] = replicate nb_labels (0::real)"
    by (intro nth_equalityI) simp_all
  with False show ?thesis by (simp add: labelToOneHot_spec_def)
qed

lemma label_to_one_hot_batch_pointwise:
  "label_to_one_hot_batch a = map (map (map labelToOneHot_spec)) a"
proof -
  have "label_to_one_hot_batch a =
      map (map (map (\<lambda>l. label_to_one_hot_pixel [0..<nb_labels] l (replicate nb_labels 0)))) a"
    unfolding label_to_one_hot_batch_def zeros_like_def
    by (rule label_to_one_hot_loop_pointwise)
  then show ?thesis
    by (simp add: label_to_one_hot_pixel_upt labelToOneHot_spec_eq)
qed

subsection \<open>The colour encoder, element by element\<close>

lemma label_to_rgb_loop_pointwise:
  "label_to_rgb_loop kvs a (map (map (map g)) a) =
     map (map (map (\<lambda>l. label_to_rgb_pixel kvs l (g l)))) a"
proof (induction kvs arbitrary: g)
  case Nil
  show ?case by simp
next
  case (Cons kv kvs)
  obtain label key where kv: "kv = (label, key)" by (cases kv)
  show ?case
    unfolding kv label_to_rgb_loop.simps eq_mask_def mask_assign_pointwise Cons.IH
    by simp
qed

lemma label_to_rgb_pixel_unmatched:
  "(\<And>i. i < length ks \<Longrightarrow> l \<noteq> real (n + i)) \<Longrightarrow>
   label_to_rgb_pixel (enumerate n ks) l c = c"
proof (induction ks arbitrary: n c)
  case Nil
  show ?case by simp
next
  case (Cons k ks)
  have "l \<noteq> real n" using Cons.prems [of 0] by simp
  moreover have "label_to_rgb_pixel (enumerate (Suc n) ks) l c = c"
  proof (rule Cons.IH)
    fix i assume "i < length ks"
    then show "l \<noteq> real (Suc n + i)" using Cons.prems [of "Suc i"] by simp
  qed
  ultimately show ?case by simp
qed

lemma label_to_rgb_pixel_matched:
  "i < length ks \<Longrightarrow> label_to_rgb_pixel (enumerate n ks) (real (n + i)) c = ks ! i"
proof (induction ks arbitrary: n c i)
  case Nil
  then show ?case by simp
next
  case (Cons k ks)
  show ?case
  proof (cases i)
    case 0
    have "label_to_rgb_pixel (enumerate (Suc n) ks) (real n) k = k"
      by (rule label_to_rgb_pixel_unmatched) simp
    with 0 show ?thesis by simp
  next
    case (Suc j)
    with Cons.prems have j: "j < length ks" by simp
    have "label_to_rgb_pixel (enumerate (Suc n) ks) (real (Suc n + j)) c = ks ! j"
      by (rule Cons.IH [OF j])
    with Suc show ?thesis by simp
  qed
qed

lemma label_to_rgb_batch_pointwise:
  "label_to_rgb_batch a = map (map (map labelToRgb_spec)) a"
proof -
  have pix: "label_to_rgb_pixel (enumerate 0 label_keys) l (0, 0, 0) = labelToRgb_spec l" for l
  proof (cases "valid_label l")
    case True
    then obtain k where k: "k < nb_labels" "l = real k" by (auto simp: valid_label_iff)
    from k(1) have "label_to_rgb_pixel (enumerate 0 label_keys) (real (0 + k)) (0, 0, 0) =
        label_keys ! k"
      unfolding nb_labels_def by (rule label_to_rgb_pixel_matched)
    with True k show ?thesis by (simp add: labelToRgb_spec_def)
  next
    case False
    then have "\<And>i. i < length label_keys \<Longrightarrow> l \<noteq> real (0 + i)"
      by (auto simp: valid_label_iff nb_labels_def)
    then have "label_to_rgb_pixel (enumerate 0 label_keys) l (0, 0, 0) = (0, 0, 0)"
      by (rule label_to_rgb_pixel_unmatched)
    with False show ?thesis by (simp add: labelToRgb_spec_def)
  qed
  have "label_to_rgb_batch a =
      map (map (map (\<lambda>l. label_to_rgb_pixel (enumerate 0 label_keys) l (0, 0, 0)))) a"
    unfolding label_to_rgb_batch_def zeros_like_def
    by (rule label_to_rgb_loop_pointwise)
  then show ?thesis by (simp add: pix)
qed

lemma first_key_index_nth:
  "distinct ks \<Longrightarrow> i < length ks \<Longrightarrow> first_key_index (ks ! i) ks = Some i"
proof (induction ks arbitrary: i)
  case Nil
  then show ?case by simp
next
  case (Cons k ks)
  then show ?case by (cases i) auto
qed

lemma rgbToLabel_labelToRgb:
  "valid_label l \<Longrightarrow> rgbToLabel_spec (labelToRgb_spec l) = l"
proof -
  assume v: "valid_label l"
  then obtain k where k: "k < nb_labels" "l = real k" by (auto simp: valid_label_iff)
  from k(1) have "first_key_index (label_keys ! k) label_keys = Some k"
    unfolding nb_labels_def by (rule first_key_index_nth [OF distinct_label_keys])
  with v k show ?thesis by (simp add: rgbToLabel_spec_def labelToRgb_spec_def)
qed

lemma map3_id:
  "list_all (list_all (list_all (\<lambda>x. f x = x))) a \<Longrightarrow> map (map (map f)) a = a"
  by (simp add: list_all_iff map_idI)

subsection \<open>\<open>argmax\<close> and the traversal\<close>

lemma argmax_from_correct:
  assumes "i = length pre" "bi < i" "best = pre ! bi"
    and "\<And>j. j < i \<Longrightarrow> pre ! j \<le> best" and "\<And>j. j < bi \<Longrightarrow> pre ! j < best"
  shows "argmax_from xs i best bi < length (pre @ xs) \<and>
     (\<forall>j<length (pre @ xs). (pre @ xs) ! j \<le> (pre @ xs) ! argmax_from xs i best bi) \<and>
     (\<forall>j<argmax_from xs i best bi. (pre @ xs) ! j < (pre @ xs) ! argmax_from xs i best bi)"
  using assms
proof (induction xs arbitrary: pre i best bi)
  case Nil
  then show ?case by simp
next
  case (Cons x xs)
  show ?case
  proof (cases "best < x")
    case True
    have "argmax_from xs (Suc i) x i < length ((pre @ [x]) @ xs) \<and>
       (\<forall>j<length ((pre @ [x]) @ xs).
          ((pre @ [x]) @ xs) ! j \<le> ((pre @ [x]) @ xs) ! argmax_from xs (Suc i) x i) \<and>
       (\<forall>j<argmax_from xs (Suc i) x i.
          ((pre @ [x]) @ xs) ! j < ((pre @ [x]) @ xs) ! argmax_from xs (Suc i) x i)"
    proof (rule Cons.IH)
      show "Suc i = length (pre @ [x])" using Cons.prems(1) by simp
      show "i < Suc i" by simp
      show "x = (pre @ [x]) ! i" using Cons.prems(1) by simp
      show "(pre @ [x]) ! j \<le> x" if "j < Suc i" for j
        using that Cons.prems(1) Cons.prems(4) [of j] True
        by (cases "j = i") (auto simp: nth_append)
      show "(pre @ [x]) ! j < x" if "j < i" for j
        using that Cons.prems(1) Cons.prems(4) [of j] True
        by (auto simp: nth_append)
    qed
    with True show ?thesis by simp
  next
    case False
    have "argmax_from xs (Suc i) best bi < length ((pre @ [x]) @ xs) \<and>
       (\<forall>j<length ((pre @ [x]) @ xs).
          ((pre @ [x]) @ xs) ! j \<le> ((pre @ [x]) @ xs) ! argmax_from xs (Suc i) best bi) \<and>
       (\<forall>j<argmax_from xs (Suc i) best bi.
          ((pre @ [x]) @ xs) ! j < ((pre @ [x]) @ xs) ! argmax_from xs (Suc i) best bi)"
    proof (rule Cons.IH)
      show "Suc i = length (pre @ [x])" using Cons.prems(1) by simp
      show "bi < Suc i" using Cons.prems(2) by simp
      show "best = (pre @ [x]) ! bi" using Cons.prems(1,2,3) by (simp add: nth_append)
      show "(pre @ [x]) ! j \<le> best" if "j < Suc i" for j
        using that Cons.prems(1) Cons.prems(4) [of j] False
        by (cases "j = i") (auto simp: nth_append)
      show "(pre @ [x]) ! j < best" if "j < bi" for j
        using that Cons.prems(1,2) Cons.prems(5) [of j]
        by (auto simp: nth_append)
    qed
    with False show ?thesis by simp
  qed
qed

lemma argmax_first_maximum:
  assumes "argmax v = Inr i"
  shows "i < length v \<and> (\<forall>j<length v. v ! j \<le> v ! i) \<and> (\<forall>j<i. v ! j < v ! i)"
proof (cases v)
  case Nil
  with assms show ?thesis by (simp add: argmax_def)
next
  case (Cons x xs)
  with assms have i: "i = argmax_from xs 1 x 0" by (simp add: argmax_def)
  have "argmax_from xs 1 x 0 < length ([x] @ xs) \<and>
     (\<forall>j<length ([x] @ xs). ([x] @ xs) ! j \<le> ([x] @ xs) ! argmax_from xs 1 x 0) \<and>
     (\<forall>j<argmax_from xs 1 x 0. ([x] @ xs) ! j < ([x] @ xs) ! argmax_from xs 1 x 0)"
    by (rule argmax_from_correct) simp_all
  with i Cons show ?thesis by simp
qed

lemma argmax_defined: "v \<noteq> [] \<Longrightarrow> \<exists>i. argmax v = Inr i"
  by (cases v) (simp_all add: argmax_def)

lemma argmax_one_hot:
  assumes "k < nb_labels"
  shows "argmax (labelToOneHot_spec (real k)) = Inr k"
proof -
  let ?v = "labelToOneHot_spec (real k)"
  have v: "?v = map (\<lambda>j. if real k = real j then 1 else 0) [0..<nb_labels]"
    by (rule labelToOneHot_spec_eq)
  with assms have "?v \<noteq> []" by auto
  then obtain i where i: "argmax ?v = Inr i" using argmax_defined by blast
  have len: "length ?v = nb_labels" by (simp add: v)
  from argmax_first_maximum [OF i]
  have il: "i < length ?v" and mx: "\<forall>j<length ?v. ?v ! j \<le> ?v ! i" by simp_all
  from il len have ik: "i < nb_labels" by simp
  from mx assms len have le: "?v ! k \<le> ?v ! i" by simp
  have vk: "?v ! k = 1" using assms by (simp add: v)
  have vi: "?v ! i = (if k = i then 1 else 0)" using ik by (simp add: v)
  from le vk vi have "i = k" by (simp split: if_splits)
  with i show ?thesis by simp
qed

lemma traverse_map_Inr:
  "(\<And>x. x \<in> set xs \<Longrightarrow> f (g x) = Inr x) \<Longrightarrow> traverse f (map g xs) = Inr xs"
  by (induction xs) simp_all

section \<open>Claims about the label codec\<close>

text \<open>
  C1. For every RGB batch, \<open>rgb_to_label_batch\<close> gives each pixel the index of the first key
  of the label key table that equals the pixel's RGB triple (equality of all three channels,
  no tolerance), and the index 0 to a pixel that equals no key. The loop of the source lets
  every matching key overwrite the label; the keys of the table are pairwise distinct, so
  the only match is also the first.
\<close>

theorem rgb_to_label_batch_first_match:
  "rgb_to_label_batch rgb_batch =
     map (map (map (\<lambda>p. case first_key_index p label_keys of
                            None \<Rightarrow> 0
                          | Some i \<Rightarrow> real i))) rgb_batch"
  using rgb_to_label_batch_pointwise [of rgb_batch]
  by (simp add: rgbToLabel_spec_def [abs_def])

theorem rgb_to_label_batch_first_match_witness:
  "rgb_to_label_batch [[[(255, 0, 0), (1, 2, 3)], [(0, 0, 255), (255, 255, 255)]]] =
     [[[5, 0], [1, 0]]]"
  using rgb_to_label_batch_first_match
    [of "[[[(255, 0, 0), (1, 2, 3)], [(0, 0, 255), (255, 255, 255)]]]"]
  by (simp add: label_keys_def)

text \<open>
  C3. For every label-index batch \<open>L\<close> whose every element is an index in
  \<open>[0, nb_labels - 1]\<close>, decoding the colour encoding of \<open>L\<close> gives \<open>L\<close> back.
\<close>

theorem rgb_label_round_trip:
  assumes "valid_labels L"
  shows "rgb_to_label_batch (label_to_rgb_batch L) = L"
proof -
  have "rgb_to_label_batch (label_to_rgb_batch L) =
      map (map (map (\<lambda>l. rgbToLabel_spec (labelToRgb_spec l)))) L"
    by (simp add: rgb_to_label_batch_pointwise label_to_rgb_batch_pointwise comp_def)
  also have "\<dots> = L"
  proof (rule map3_id)
    from assms show "list_all (list_all (list_all
        (\<lambda>l. rgbToLabel_spec (labelToRgb_spec l) = l))) L"
      unfolding valid_labels_def
      by (auto simp: list_all_iff rgbToLabel_labelToRgb)
  qed
  finally show ?thesis .
qed

theorem rgb_label_round_trip_witness:
  "valid_labels [[[0, 1, 2], [3, 4, 5]]] \<and>
   label_to_rgb_batch [[[0, 1, 2], [3, 4, 5]]] =
     [[[(255, 255, 255), (0, 0, 255), (0, 255, 255)],
       [(0, 255, 0), (255, 255, 0), (255, 0, 0)]]] \<and>
   rgb_to_label_batch (label_to_rgb_batch [[[0, 1, 2], [3, 4, 5]]]) = [[[0, 1, 2], [3, 4, 5]]]"
proof -
  have v: "valid_labels [[[0, 1, 2], [3, 4, 5]]]"
    by (simp add: valid_labels_def valid_label_def nb_labels_def label_keys_def)
  have e: "label_to_rgb_batch [[[0, 1, 2], [3, 4, 5]]] =
     [[[(255, 255, 255), (0, 0, 255), (0, 255, 255)],
       [(0, 255, 0), (255, 255, 0), (255, 0, 0)]]]"
    by (simp add: label_to_rgb_batch_def label_keys_def zeros_like_def eq_mask_def
        mask_assign_def enumerate_eq_zip upt_rec)
  from v e rgb_label_round_trip [OF v] show ?thesis by simp
qed

text \<open>
  C4. For every label-index batch whose every element is an index in
  \<open>[0, nb_labels - 1]\<close>, taking the \<open>argmax\<close> of its one-hot encoding succeeds and gives
  the batch of the same indices back. The \<open>argmax\<close> is the index of a maximum of the
  vector, and the lowest such index: every earlier element is strictly smaller.
\<close>

theorem one_hot_round_trip:
  "(valid_labels L \<longrightarrow>
      (\<exists>N. one_hot_to_label_batch (label_to_one_hot_batch L) = Inr N \<and>
           map (map (map real)) N = L)) \<and>
   (\<forall>v. v \<noteq> [] \<longrightarrow> (\<exists>i. argmax v = Inr i)) \<and>
   (\<forall>v i. argmax v = Inr i \<longrightarrow>
      i < length v \<and> (\<forall>j<length v. v ! j \<le> v ! i) \<and> (\<forall>j<i. v ! j < v ! i))"
proof -
  have round: "\<exists>N. one_hot_to_label_batch (label_to_one_hot_batch L) = Inr N \<and>
      map (map (map real)) N = L" if v: "valid_labels L"
  proof -
    define N where "N = map (map (map (\<lambda>l. nat \<lfloor>l\<rfloor>))) L"
    have inv: "real (nat \<lfloor>l\<rfloor>) = l" and ran: "nat \<lfloor>l\<rfloor> < nb_labels"
      if "valid_label l" for l
      using that by (auto simp: valid_label_iff)
    have L: "map (map (map real)) N = L"
      unfolding N_def map_map comp_def
      by (rule map3_id) (use v in \<open>auto simp: valid_labels_def list_all_iff inv\<close>)
    have bound: "\<And>img row n. img \<in> set N \<Longrightarrow> row \<in> set img \<Longrightarrow> n \<in> set row \<Longrightarrow> n < nb_labels"
      using v unfolding N_def valid_labels_def list_all_iff by (auto simp: ran)
    have "one_hot_to_label_batch (label_to_one_hot_batch (map (map (map real)) N)) = Inr N"
      unfolding one_hot_to_label_batch_def label_to_one_hot_batch_pointwise map_map comp_def
      by (intro traverse_map_Inr) (simp add: argmax_one_hot bound)
    with L show ?thesis by auto
  qed
  have total: "\<exists>i. argmax v = Inr i" if "v \<noteq> []" for v
    using that by (rule argmax_defined)
  have first: "i < length v \<and> (\<forall>j<length v. v ! j \<le> v ! i) \<and> (\<forall>j<i. v ! j < v ! i)"
    if "argmax v = Inr i" for v i
    using that by (rule argmax_first_maximum)
  from round total first show ?thesis by blast
qed

theorem one_hot_round_trip_witness:
  "(\<exists>N. one_hot_to_label_batch (label_to_one_hot_batch [[[0, 1, 2], [3, 4, 5]]]) = Inr N \<and>
        map (map (map real)) N = [[[0, 1, 2], [3, 4, 5]]]) \<and>
   argmax [1, 3, 3, 2] = Inr 1 \<and>
   1 < length [1, 3, 3, 2 :: real]"
proof -
  have v: "valid_labels [[[0, 1, 2], [3, 4, 5]]]"
    by (simp add: valid_labels_def valid_label_def nb_labels_def label_keys_def)
  have a: "argmax [1, 3, 3, 2] = Inr 1"
    by (simp add: argmax_def)
  from one_hot_round_trip [of "[[[0, 1, 2], [3, 4, 5]]]"] v
  have "\<exists>N. one_hot_to_label_batch (label_to_one_hot_batch [[[0, 1, 2], [3, 4, 5]]]) = Inr N \<and>
        map (map (map real)) N = [[[0, 1, 2], [3, 4, 5]]]"
    by blast
  moreover from one_hot_round_trip [of "[]"] a have "1 < length [1, 3, 3, 2 :: real]"
    by blast
  ultimately show ?thesis using a by simp
qed

text \<open>
  C7. \<open>label_to_one_hot_batch\<close> has no failing branch: it returns an array for every
  batch. At an element that is one of the indices \<open>0, \<dots>, nb_labels - 1\<close> the vector has
  a single 1, at that index, and 0 elsewhere; at any other element (an index out of
  range) the vector is all zero and has length \<open>nb_labels\<close>.
\<close>

theorem label_to_one_hot_batch_vectors:
  "label_to_one_hot_batch L =
     map (map (map (\<lambda>l. if valid_label l
                         then (replicate nb_labels 0)[nat \<lfloor>l\<rfloor> := 1]
                         else replicate nb_labels 0))) L"
  using label_to_one_hot_batch_pointwise [of L]
  by (simp add: labelToOneHot_spec_def [abs_def])

theorem label_to_one_hot_batch_vectors_witness:
  "label_to_one_hot_batch [[[2, 7], [- 1, 5]]] =
     [[[[0, 0, 1, 0, 0, 0], [0, 0, 0, 0, 0, 0]],
       [[0, 0, 0, 0, 0, 0], [0, 0, 0, 0, 0, 1]]]]"
  using label_to_one_hot_batch_vectors [of "[[[2, 7], [- 1, 5]]]"]
  by (simp add: valid_label_def nb_labels_def label_keys_def upt_rec)

section \<open>Facts about the tiler\<close>

lemma set_range_from:
  "0 < t \<Longrightarrow> set (range_from a n t) = {r. \<exists>k. r = a + k * t \<and> r < n}"
proof (induction a n t rule: range_from.induct)
  case (1 a n t)
  show ?case
  proof (cases "n \<le> a")
    case True
    then show ?thesis by (subst range_from.simps) auto
  next
    case False
    with "1.prems" have IH: "set (range_from (a + t) n t) = {r. \<exists>k. r = a + t + k * t \<and> r < n}"
      using "1.IH" by simp
    have "set (range_from a n t) = insert a (set (range_from (a + t) n t))"
      using False "1.prems" by (subst range_from.simps) simp
    also have "\<dots> = {r. \<exists>k. r = a + k * t \<and> r < n}"
    proof (rule set_eqI, rule iffI)
      fix r assume "r \<in> insert a (set (range_from (a + t) n t))"
      then consider "r = a" | k where "r = a + t + k * t" "r < n" unfolding IH by auto
      then show "r \<in> {r. \<exists>k. r = a + k * t \<and> r < n}"
      proof cases
        case 1
        with False have "r = a + 0 * t \<and> r < n" by simp
        then show ?thesis by blast
      next
        case 2
        then have "r = a + Suc k * t \<and> r < n" by simp
        then show ?thesis by blast
      qed
    next
      fix r assume "r \<in> {r. \<exists>k. r = a + k * t \<and> r < n}"
      then obtain k where k: "r = a + k * t" "r < n" by auto
      show "r \<in> insert a (set (range_from (a + t) n t))"
      proof (cases k)
        case 0
        with k show ?thesis by simp
      next
        case (Suc k')
        with k have "r = a + t + k' * t \<and> r < n" by simp
        then show ?thesis unfolding IH by blast
      qed
    qed
    finally show ?thesis .
  qed
qed

lemma sorted_range_from: "0 < t \<Longrightarrow> sorted_wrt (<) (range_from a n t)"
proof (induction a n t rule: range_from.induct)
  case (1 a n t)
  show ?case
  proof (cases "n \<le> a")
    case True
    then show ?thesis by (subst range_from.simps) simp
  next
    case False
    with "1.prems" have IH: "sorted_wrt (<) (range_from (a + t) n t)"
      using "1.IH" by simp
    have "\<forall>r\<in>set (range_from (a + t) n t). a < r"
      using "1.prems" by (auto simp: set_range_from)
    with IH False "1.prems" show ?thesis by (subst range_from.simps) simp
  qed
qed

lemma range_from_filter:
  assumes "0 < t" "0 < s"
  shows "filter (\<lambda>r. r + s \<le> n) (range_from 0 n t) =
     filter (\<lambda>r. t dvd r \<and> r + s \<le> n) [0..<Suc n]"
proof (rule strict_sorted_equal)
  show "sorted_wrt (<) (filter (\<lambda>r. r + s \<le> n) (range_from 0 n t))"
    using assms by (simp add: sorted_wrt_filter sorted_range_from)
  show "sorted_wrt (<) (filter (\<lambda>r. t dvd r \<and> r + s \<le> n) [0..<Suc n])"
    by (rule sorted_wrt_filter) (simp add: sorted_wrt_upt del: upt_Suc)
  show "set (filter (\<lambda>r. r + s \<le> n) (range_from 0 n t)) =
     set (filter (\<lambda>r. t dvd r \<and> r + s \<le> n) [0..<Suc n])"
    using assms by (auto simp: set_range_from dvd_def mult.commute)
qed

lemma tile_cols_eq:
  "tile_cols im sz row cols tiles =
     tiles @ [slice2 im row col sz.
                col \<leftarrow> cols, row + sz \<le> shape_rows im \<and> col + sz \<le> shape_cols im]"
  by (induction cols arbitrary: tiles) simp_all

lemma tile_rows_eq:
  "0 < stride \<Longrightarrow>
   tile_rows im sz stride rows tiles =
     Inr (tiles @ [slice2 im row col sz.
                     row \<leftarrow> rows, col \<leftarrow> range_from 0 (shape_cols im) stride,
                     row + sz \<le> shape_rows im \<and> col + sz \<le> shape_cols im])"
  by (induction rows arbitrary: tiles) (simp_all add: py_range_def tile_cols_eq)

lemma tile_image_offsets:
  "0 < stride \<Longrightarrow>
   tile_image im sz stride =
     Inr (map (\<lambda>(row, col). slice2 im row col sz)
            (tile_offsets (shape_rows im) (shape_cols im) sz stride))"
  by (simp add: tile_image_def py_range_def tile_rows_eq tile_offsets_def
      map_concat comp_def if_distrib [of "map _"] cong: if_cong)

lemma tile_image_zero_stride: "tile_image im sz 0 = Inl ValueError"
  by (simp add: tile_image_def py_range_def)

lemma concat_map_if_singleton:
  "concat (map (\<lambda>c. if Q c then [f c] else []) ys) = map f (filter Q ys)"
  by (induction ys) simp_all

lemma concat_map_if:
  "concat (map (\<lambda>r. if P r then g r else []) xs) = concat (map g (filter P xs))"
  by (induction xs) simp_all

lemma tile_offsets_filter:
  "tile_offsets rows cols sz stride =
     concat (map (\<lambda>r. map (Pair r) (filter (\<lambda>c. c + sz \<le> cols) (range_from 0 cols stride)))
       (filter (\<lambda>r. r + sz \<le> rows) (range_from 0 rows stride)))"
proof -
  have inner: "concat (map (\<lambda>c. if r + sz \<le> rows \<and> c + sz \<le> cols then [(r, c)] else []) ys) =
      (if r + sz \<le> rows then map (Pair r) (filter (\<lambda>c. c + sz \<le> cols) ys) else [])" for r ys
    by (induction ys) simp_all
  show ?thesis
    unfolding tile_offsets_def inner by (rule concat_map_if)
qed

lemma tile_spec_offsets_filter:
  "tile_spec_offsets rows cols s t =
     concat (map (\<lambda>r. map (Pair r) (filter (\<lambda>c. t dvd c \<and> c + s \<le> cols) [0..<Suc cols]))
       (filter (\<lambda>r. t dvd r \<and> r + s \<le> rows) [0..<Suc rows]))"
  unfolding tile_spec_offsets_def concat_map_if_singleton by (rule concat_map_if)

lemma tile_offsets_spec:
  "0 < s \<Longrightarrow> 0 < t \<Longrightarrow> tile_offsets rows cols s t = tile_spec_offsets rows cols s t"
  unfolding tile_offsets_filter tile_spec_offsets_filter by (simp only: range_from_filter)

lemma tile_spec_offsets_fit:
  "(r, c) \<in> set (tile_spec_offsets rows cols s t) \<Longrightarrow> r + s \<le> rows \<and> c + s \<le> cols"
  unfolding tile_spec_offsets_filter by (auto simp del: upt_Suc)

lemma slice2_sub_image:
  assumes rect: "\<forall>row\<in>set im. length row = cols"
    and r: "r + s \<le> length im" and c: "c + s \<le> cols"
  shows "slice2 im r c s = sub_image im r c s"
  unfolding slice2_def sub_image_def
proof (rule nth_equalityI)
  show "length (map (\<lambda>row. take s (drop c row)) (take s (drop r im))) =
      length (map (\<lambda>i. map (\<lambda>j. im ! (r + i) ! (c + j)) [0..<s]) [0..<s])"
    using r by simp
next
  fix i assume "i < length (map (\<lambda>row. take s (drop c row)) (take s (drop r im)))"
  with r have i: "i < s" by simp
  with r have "r + i < length im" by simp
  then have "im ! (r + i) \<in> set im" by (rule nth_mem)
  with rect have len: "length (im ! (r + i)) = cols" by blast
  have "take s (drop c (im ! (r + i))) = map (\<lambda>j. im ! (r + i) ! (c + j)) [0..<s]"
    by (rule nth_equalityI) (use len c in simp_all)
  with i r show "map (\<lambda>row. take s (drop c row)) (take s (drop r im)) ! i =
      map (\<lambda>i. map (\<lambda>j. im ! (r + i) ! (c + j)) [0..<s]) [0..<s] ! i"
    by simp
qed

lemma shape_cols_rect:
  "im \<noteq> [] \<Longrightarrow> \<forall>row\<in>set im. length row = cols \<Longrightarrow> shape_cols im = cols"
  by (cases im) (simp_all add: shape_cols_def)

lemma tile_offsets_no_rows: "tile_offsets 0 cols sz stride = []"
  by (simp add: tile_offsets_def range_from.simps)

lemma tile_spec_offsets_no_rows: "0 < s \<Longrightarrow> tile_spec_offsets 0 cols s t = []"
  by (simp add: tile_spec_offsets_filter)

lemma tile_image_rect:
  assumes len: "length im = rows" and rect: "\<forall>row\<in>set im. length row = cols"
    and s: "0 < s" and t: "0 < t"
  shows "tile_image im s t =
     Inr (map (\<lambda>(r, c). sub_image im r c s) (tile_spec_offsets rows cols s t))"
proof (cases "im = []")
  case True
  with len have "rows = 0" by simp
  with True s t show ?thesis
    by (simp add: tile_image_offsets shape_rows_def tile_offsets_no_rows
        tile_spec_offsets_no_rows)
next
  case False
  from False rect have cols: "shape_cols im = cols" by (rule shape_cols_rect)
  have "map (\<lambda>(r, c). slice2 im r c s) (tile_spec_offsets rows cols s t) =
      map (\<lambda>(r, c). sub_image im r c s) (tile_spec_offsets rows cols s t)"
  proof (rule map_cong [OF refl])
    fix x assume x: "x \<in> set (tile_spec_offsets rows cols s t)"
    obtain r c where rc: "x = (r, c)" by (cases x)
    from x rc have "r + s \<le> rows \<and> c + s \<le> cols" by (simp add: tile_spec_offsets_fit)
    with len have "r + s \<le> length im" and "c + s \<le> cols" by simp_all
    with rect have "slice2 im r c s = sub_image im r c s"
      by (rule slice2_sub_image)
    with rc show "(case x of (r, c) \<Rightarrow> slice2 im r c s) = (case x of (r, c) \<Rightarrow> sub_image im r c s)"
      by simp
  qed
  with t s len cols show ?thesis
    by (simp add: tile_image_offsets shape_rows_def tile_offsets_spec)
qed

lemma tile_offsets_200: "tile_offsets 200 200 200 100 = [(0, 0)]"
  by (simp add: tile_offsets_def range_from.simps)

lemma tile_offsets_300:
  "tile_offsets 300 300 200 100 = [(0, 0), (0, 100), (100, 0), (100, 100)]"
  by (simp add: tile_offsets_def range_from.simps)

lemma tile_offsets_250: "tile_offsets 250 250 200 100 = [(0, 0)]"
  by (simp add: tile_offsets_def range_from.simps)

section \<open>Claims about the tiler\<close>

text \<open>
  C2. For every image of \<open>rows\<close> rows and \<open>cols\<close> columns, every size \<open>s \<ge> 1\<close> and every
  stride \<open>t \<ge> 1\<close>, \<open>tile_image\<close> succeeds and returns exactly the sub-images of side \<open>s\<close>
  at the offsets \<open>(r, c)\<close> with \<open>r\<close> and \<open>c\<close> multiples of \<open>t\<close>, \<open>r + s \<le> rows\<close> and
  \<open>c + s \<le> cols\<close>, in row-major order: no padding, no partial tile. With size 200 and
  stride 100, an image of 200 by 200 gives the one tile at \<open>(0, 0)\<close>, an image of 300 by
  300 the four tiles at \<open>(0, 0)\<close>, \<open>(0, 100)\<close>, \<open>(100, 0)\<close>, \<open>(100, 100)\<close>, and an image of
  250 by 250 the one tile at \<open>(0, 0)\<close>.
\<close>

theorem tile_image_spec:
  assumes "length im = rows" and "\<forall>row\<in>set im. length row = cols"
    and "1 \<le> s" and "1 \<le> t"
  shows "tile_image im s t =
       Inr (map (\<lambda>(r, c). sub_image im r c s) (tile_spec_offsets rows cols s t)) \<and>
     (rows = 200 \<and> cols = 200 \<longrightarrow>
        tile_image im 200 100 = Inr [sub_image im 0 0 200]) \<and>
     (rows = 300 \<and> cols = 300 \<longrightarrow>
        tile_image im 200 100 =
          Inr [sub_image im 0 0 200, sub_image im 0 100 200,
               sub_image im 100 0 200, sub_image im 100 100 200]) \<and>
     (rows = 250 \<and> cols = 250 \<longrightarrow>
        tile_image im 200 100 = Inr [sub_image im 0 0 200])"
proof -
  have general: "tile_image im s' t' =
      Inr (map (\<lambda>(r, c). sub_image im r c s') (tile_spec_offsets rows cols s' t'))"
    if "0 < s'" "0 < t'" for s' t'
    using assms(1,2) that by (rule tile_image_rect)
  have fixed: "tile_image im 200 100 =
      Inr (map (\<lambda>(r, c). sub_image im r c 200) (tile_offsets rows cols 200 100))"
    using general [of 200 100] by (simp add: tile_offsets_spec)
  have "tile_image im s t =
      Inr (map (\<lambda>(r, c). sub_image im r c s) (tile_spec_offsets rows cols s t))"
    using assms(3,4) by (intro general) simp_all
  moreover have "tile_image im 200 100 = Inr [sub_image im 0 0 200]"
    if "rows = 200 \<and> cols = 200"
    using that fixed by (simp add: tile_offsets_200)
  moreover have "tile_image im 200 100 =
      Inr [sub_image im 0 0 200, sub_image im 0 100 200,
           sub_image im 100 0 200, sub_image im 100 100 200]"
    if "rows = 300 \<and> cols = 300"
    using that fixed by (simp add: tile_offsets_300)
  moreover have "tile_image im 200 100 = Inr [sub_image im 0 0 200]"
    if "rows = 250 \<and> cols = 250"
    using that fixed by (simp add: tile_offsets_250)
  ultimately show ?thesis by blast
qed

theorem tile_image_spec_witness:
  "tile_image [[1, 2, 3, 4], [5, 6, 7, 8], [9, 10, 11, 12 :: nat]] 2 2 =
     Inr [[[1, 2], [5, 6]], [[3, 4], [7, 8]]] \<and>
   tile_image (replicate 200 (replicate 200 (0 :: nat))) 200 100 =
     Inr [sub_image (replicate 200 (replicate 200 0)) 0 0 200] \<and>
   tile_image (replicate 300 (replicate 300 (0 :: nat))) 200 100 =
     Inr [sub_image (replicate 300 (replicate 300 0)) 0 0 200,
          sub_image (replicate 300 (replicate 300 0)) 0 100 200,
          sub_image (replicate 300 (replicate 300 0)) 100 0 200,
          sub_image (replicate 300 (replicate 300 0)) 100 100 200] \<and>
   tile_image (replicate 250 (replicate 250 (0 :: nat))) 200 100 =
     Inr [sub_image (replicate 250 (replicate 250 0)) 0 0 200]"
proof -
  let ?im = "[[1, 2, 3, 4], [5, 6, 7, 8], [9, 10, 11, 12 :: nat]]"
  have "tile_image ?im 2 2 =
      Inr (map (\<lambda>(r, c). sub_image ?im r c 2) (tile_spec_offsets 3 4 2 2))"
    using tile_image_spec [of ?im 3 4 2 2] by simp
  moreover have "tile_spec_offsets 3 4 2 2 = [(0, 0), (0, 2)]"
    by (simp add: tile_spec_offsets_def upt_rec)
  moreover have "sub_image ?im 0 0 2 = [[1, 2], [5, 6]]"
    and "sub_image ?im 0 2 2 = [[3, 4], [7, 8]]"
    by (simp_all add: sub_image_def upt_rec)
  ultimately have small: "tile_image ?im 2 2 = Inr [[[1, 2], [5, 6]], [[3, 4], [7, 8]]]"
    by simp
  have one: "(1::nat) \<le> 200" "(1::nat) \<le> 100" by simp_all
  have rect: "\<forall>row\<in>set (replicate n (replicate m (0::nat))). length row = m" for n m
    by simp
  have a: "tile_image (replicate 200 (replicate 200 (0 :: nat))) 200 100 =
      Inr [sub_image (replicate 200 (replicate 200 0)) 0 0 200]"
    using tile_image_spec [OF length_replicate rect one] by blast
  have b: "tile_image (replicate 300 (replicate 300 (0 :: nat))) 200 100 =
      Inr [sub_image (replicate 300 (replicate 300 0)) 0 0 200,
           sub_image (replicate 300 (replicate 300 0)) 0 100 200,
           sub_image (replicate 300 (replicate 300 0)) 100 0 200,
           sub_image (replicate 300 (replicate 300 0)) 100 100 200]"
    using tile_image_spec [OF length_replicate rect one] by blast
  have c: "tile_image (replicate 250 (replicate 250 (0 :: nat))) 200 100 =
      Inr [sub_image (replicate 250 (replicate 250 0)) 0 0 200]"
    using tile_image_spec [OF length_replicate rect one] by blast
  from small a b c show ?thesis by blast
qed


section \<open>Facts about directory creation\<close>

lemma written_mkdir: "written (snd (mkdir fs name)) = written fs"
  by (simp add: mkdir_def)

lemma written_makedirs: "written (snd (makedirs fs name)) = written fs"
proof (induction fs name rule: makedirs.induct)
  case (1 fs name)
  show ?case
  proof (cases "fst (parent_and_leaf name) \<noteq> [] \<and> snd (parent_and_leaf name) \<noteq> [] \<and>
      \<not> dir_exists fs (fst (parent_and_leaf name))")
    case False
    have "makedirs fs name = mkdir fs name"
      by (subst makedirs.simps) (simp only: False if_False)
    then show ?thesis by (simp add: written_mkdir)
  next
    case True
    obtain r fs' where r: "makedirs fs (fst (parent_and_leaf name)) = (r, fs')"
      by (cases "makedirs fs (fst (parent_and_leaf name))")
    with "1.IH" [OF True] have w: "written fs' = written fs" by simp
    have "makedirs fs name =
        (case (r, fs') of
           (None, fs') \<Rightarrow>
             if snd (parent_and_leaf name) = ''.'' then (None, fs') else mkdir fs' name
         | (Some e, fs') \<Rightarrow>
             if e = FileExistsError
             then (if snd (parent_and_leaf name) = ''.'' then (None, fs') else mkdir fs' name)
             else (Some e, fs'))"
      by (subst makedirs.simps) (simp add: True r)
    with w show ?thesis by (simp add: written_mkdir split: option.splits)
  qed
qed

lemma priv_makedirs_eq: "priv_makedirs fs path = (None, snd (makedirs fs path))"
  by (simp add: priv_makedirs_def split: prod.splits option.splits)

lemma makedirs_existing:
  assumes "path \<noteq> []" and "dir_exists fs path"
    and "dir_exists fs (fst (parent_and_leaf path))"
  shows "makedirs fs path = (Some FileExistsError, fs)"
proof -
  from assms(3) have "\<not> (fst (parent_and_leaf path) \<noteq> [] \<and> snd (parent_and_leaf path) \<noteq> [] \<and>
      \<not> dir_exists fs (fst (parent_and_leaf path)))"
    by simp
  then have "makedirs fs path = mkdir fs path"
    by (subst makedirs.simps) (simp only: if_False)
  with assms(1,2) show ?thesis by (simp add: mkdir_def)
qed

section \<open>Claims about directory creation\<close>

text \<open>
  C8, as the specification states it, fails on the code. In a file system that refuses
  the creation of the model directory, \<^verbatim>\<open>os.makedirs\<close> creates the three missing parents
  and raises \<^verbatim>\<open>PermissionError\<close> at the directory itself; \<^verbatim>\<open>_makedirs\<close> swallows the
  exception and returns normally.
\<close>

theorem priv_makedirs_swallows_permission_error:
  "makedirs denied_fs model_path =
     (Some PermissionError,
      \<lparr>dirs = [''/opt/data/results'', ''/opt/data'', ''/opt''],
       denied = [''/opt/data/results/models''], written = []\<rparr>) \<and>
   priv_makedirs denied_fs model_path =
     (None,
      \<lparr>dirs = [''/opt/data/results'', ''/opt/data'', ''/opt''],
       denied = [''/opt/data/results/models''], written = []\<rparr>)"
  by code_simp

text \<open>
  C8, amended. \<^verbatim>\<open>_makedirs\<close> never surfaces a failure of the directory creation: it
  returns normally whatever \<^verbatim>\<open>os.makedirs\<close> does, an "already exists" error and every
  other error (such as a refused permission) alike, and the file system is the one
  \<^verbatim>\<open>os.makedirs\<close> left. When the directory and its parent exist, \<^verbatim>\<open>os.makedirs\<close> raises
  "already exists", \<^verbatim>\<open>_makedirs\<close> ignores it and nothing changes.
\<close>

theorem priv_makedirs_never_raises:
  "fst (priv_makedirs fs path) = None \<and>
   snd (priv_makedirs fs path) = snd (makedirs fs path) \<and>
   (path \<noteq> [] \<and> dir_exists fs path \<and> dir_exists fs (fst (parent_and_leaf path)) \<longrightarrow>
      makedirs fs path = (Some FileExistsError, fs) \<and> priv_makedirs fs path = (None, fs))"
  by (simp add: priv_makedirs_eq makedirs_existing)

theorem priv_makedirs_never_raises_witness:
  "priv_makedirs empty_fs ''/opt/data/results/eval'' =
     (None,
      \<lparr>dirs = [''/opt/data/results/eval'', ''/opt/data/results'', ''/opt/data'', ''/opt''],
       denied = [], written = []\<rparr>) \<and>
   makedirs
     \<lparr>dirs = [''/opt/data/results/eval'', ''/opt/data/results'', ''/opt/data'', ''/opt''],
      denied = [], written = [] :: (string \<times> nat list image) list\<rparr>
     ''/opt/data/results/eval'' =
     (Some FileExistsError,
      \<lparr>dirs = [''/opt/data/results/eval'', ''/opt/data/results'', ''/opt/data'', ''/opt''],
       denied = [], written = []\<rparr>) \<and>
   priv_makedirs
     \<lparr>dirs = [''/opt/data/results/eval'', ''/opt/data/results'', ''/opt/data'', ''/opt''],
      denied = [], written = [] :: (string \<times> nat list image) list\<rparr>
     ''/opt/data/results/eval'' =
     (None,
      \<lparr>dirs = [''/opt/data/results/eval'', ''/opt/data/results'', ''/opt/data'', ''/opt''],
       denied = [], written = []\<rparr>)"
proof -
  let ?p = "''/opt/data/results/eval''"
  let ?fs1 = "\<lparr>dirs = [''/opt/data/results/eval'', ''/opt/data/results'', ''/opt/data'', ''/opt''],
      denied = [], written = [] :: (string \<times> nat list image) list\<rparr>"
  have m: "makedirs empty_fs ?p = (None, ?fs1)" by code_simp
  have pl: "parent_and_leaf ?p = (''/opt/data/results'', ''eval'')"
    by (simp add: parent_and_leaf_def path_split_def)
  have ex: "?p \<noteq> [] \<and> dir_exists ?fs1 ?p \<and> dir_exists ?fs1 (fst (parent_and_leaf ?p))"
    by (simp add: pl dir_exists_def)
  from priv_makedirs_never_raises [of empty_fs ?p] m
  have a: "priv_makedirs empty_fs ?p = (None, ?fs1)"
    by (simp add: prod_eq_iff)
  from priv_makedirs_never_raises [of ?fs1 ?p] ex
  have b: "makedirs ?fs1 ?p = (Some FileExistsError, ?fs1)"
    and c: "priv_makedirs ?fs1 ?p = (None, ?fs1)"
    by blast+
  from a b c show ?thesis by blast
qed

section \<open>Facts about the double-precision product\<close>

lemma log2_up_bounds: "1 \<le> x \<Longrightarrow> 2 ^ log2_up x \<le> x \<and> x < 2 ^ Suc (log2_up x)"
proof (induction x rule: log2_up.induct)
  case (1 x)
  show ?case
  proof (cases "x < 2")
    case True
    with "1.prems" show ?thesis by (subst (1 2) log2_up.simps) simp
  next
    case False
    then have "1 \<le> x / 2" by simp
    with "1.IH" False have "2 ^ log2_up (x / 2) \<le> x / 2 \<and> x / 2 < 2 ^ Suc (log2_up (x / 2))"
      by simp
    with False show ?thesis by (subst (1 2) log2_up.simps) simp
  qed
qed

lemma log2_down_bounds:
  "0 < x \<Longrightarrow> x < 1 \<Longrightarrow> 1 \<le> x * 2 ^ log2_down x \<and> x * 2 ^ log2_down x < 2"
proof (induction x rule: log2_down.induct)
  case (1 x)
  show ?case
  proof (cases "1 \<le> 2 * x")
    case True
    then have "log2_down (2 * x) = 0" by (subst log2_down.simps) simp
    with "1.prems" True show ?thesis by (subst (1 2) log2_down.simps) simp
  next
    case False
    with "1.prems" "1.IH"
    have "1 \<le> 2 * x * 2 ^ log2_down (2 * x) \<and> 2 * x * 2 ^ log2_down (2 * x) < 2"
      by simp
    with "1.prems" show ?thesis
      by (subst (1 2) log2_down.simps) (simp add: mult.assoc mult.left_commute)
  qed
qed

lemma floor_log2_bounds:
  assumes "0 < x"
  shows "2 powi floor_log2 x \<le> x" and "x < 2 powi (floor_log2 x + 1)"
proof -
  show "2 powi floor_log2 x \<le> x"
  proof (cases "1 \<le> x")
    case True
    with log2_up_bounds [of x] show ?thesis by (simp add: floor_log2_def)
  next
    case False
    with assms log2_down_bounds [of x] have "1 \<le> x * 2 ^ log2_down x" by simp
    then have "1 / 2 ^ log2_down x \<le> x" by (simp add: field_simps)
    with False show ?thesis by (simp add: floor_log2_def power_int_minus field_simps)
  qed
  show "x < 2 powi (floor_log2 x + 1)"
  proof (cases "1 \<le> x")
    case True
    with log2_up_bounds [of x] have "x < 2 ^ Suc (log2_up x)" by simp
    moreover have "(2::rat) powi (int (log2_up x) + 1) = 2 ^ Suc (log2_up x)"
      by (simp add: power_int_add)
    ultimately show ?thesis using True by (simp add: floor_log2_def)
  next
    case False
    with assms log2_down_bounds [of x] have b: "x * 2 ^ log2_down x < 2" by simp
    have "(2::rat) powi (1 - int (log2_down x)) = 2 powi 1 / 2 powi int (log2_down x)"
      by (rule power_int_diff) simp
    then have "(2::rat) powi (- int (log2_down x) + 1) = 2 / 2 ^ log2_down x"
      by simp
    moreover from b have "x < 2 / 2 ^ log2_down x" by (simp add: field_simps)
    ultimately show ?thesis using False by (simp add: floor_log2_def)
  qed
qed

lemma round_half_even_of_int: "round_half_even (of_int m) = m"
  by (simp add: round_half_even_def)

lemma double_round_exact:
  assumes "0 < x" and "x * 2 powi (52 - floor_log2 x) = of_int m"
  shows "double_round x = x"
proof -
  let ?e = "floor_log2 x"
  have "x / 2 powi (?e - 52) = x * 2 powi (52 - ?e)"
    by (simp add: power_int_diff field_simps)
  with assms(2) have q: "x / 2 powi (?e - 52) = of_int m" by simp
  have "of_int m * 2 powi (?e - 52) = x"
    using q by (simp add: field_simps)
  with assms(1) q show ?thesis
    by (simp add: double_round_def Let_def round_half_even_of_int)
qed

text \<open>A number of at most 53 significant bits is a double: rounding leaves it.\<close>

lemma double_round_dyadic:
  assumes "k < 2 ^ 53"
  shows "double_round (of_nat k / 2 ^ j) = of_nat k / 2 ^ j"
proof (cases "k = 0")
  case True
  then show ?thesis by (simp add: double_round_def)
next
  case False
  let ?x = "of_nat k / 2 ^ j :: rat"
  let ?e = "floor_log2 ?x"
  from False have pos: "0 < ?x" by simp
  have "(of_nat k :: rat) < of_nat (2 ^ 53)"
    using assms by (simp only: of_nat_less_iff)
  then have "(of_nat k :: rat) < 2 ^ 53" by simp
  then have "?x < 2 ^ 53 / 2 ^ j"
    by (rule divide_strict_right_mono) simp
  also have "\<dots> = 2 powi (53 - int j)"
    by (simp add: power_int_diff)
  finally have lt: "2 powi ?e < (2::rat) powi (53 - int j)"
    using floor_log2_bounds(1) [OF pos] by simp
  have "?e < 53 - int j"
  proof (rule ccontr)
    assume "\<not> ?e < 53 - int j"
    then have "53 - int j \<le> ?e" by simp
    then have "(2::rat) powi (53 - int j) \<le> 2 powi ?e"
      by (rule power_int_increasing) simp
    with lt show False by simp
  qed
  then have n: "0 \<le> 52 - ?e - int j" by simp
  have "(2::rat) powi (52 - ?e - int j) = 2 powi (52 - ?e) / 2 powi int j"
    by (rule power_int_diff) simp
  then have "?x * 2 powi (52 - ?e) = of_nat k * 2 powi (52 - ?e - int j)"
    by simp
  also have "\<dots> = of_nat k * 2 ^ nat (52 - ?e - int j)"
    using n by (simp add: power_int_def)
  also have "\<dots> = of_int (int k * 2 ^ nat (52 - ?e - int j))" by simp
  finally show ?thesis by (rule double_round_exact [OF pos])
qed

lemma train_ratio_eq: "train_ratio = 3 / 4"
  using double_round_dyadic [of 3 2] by (simp add: train_ratio_def float_literal_def)

lemma float_product_train_ratio:
  assumes "n < 2 ^ 51"
  shows "float_mul (float_of_nat n) train_ratio = of_nat (3 * n) / 4"
proof -
  from assms have "n < 2 ^ 53" by simp
  then have "float_of_nat n = of_nat n"
    using double_round_dyadic [of n 0] by (simp add: float_of_nat_def)
  moreover from assms have "3 * n < 2 ^ 53" by simp
  then have "double_round (of_nat (3 * n) / 2 ^ 2) = of_nat (3 * n) / 2 ^ 2"
    by (rule double_round_dyadic)
  moreover have "of_nat n * (3 / 4 :: rat) = of_nat (3 * n) / 2 ^ 2" by simp
  ultimately show ?thesis
    by (simp only: float_mul_def train_ratio_eq)
qed

lemma split_file_names_train_ratio:
  assumes "length file_names < 2 ^ 51"
  shows "split_file_names train_ratio file_names =
     (take (nat \<lfloor>(3 / 4 :: rat) * of_nat (length file_names)\<rfloor>) file_names,
      drop (nat \<lfloor>(3 / 4 :: rat) * of_nat (length file_names)\<rfloor>) file_names)"
proof -
  let ?n = "length file_names"
  have p: "float_mul (float_of_nat ?n) train_ratio = (3 / 4) * of_nat ?n"
    using float_product_train_ratio [OF assms] by simp
  have nn: "(0::rat) \<le> (3 / 4) * of_nat ?n" by simp
  have "(3 / 4 :: rat) * of_nat ?n \<le> of_nat ?n" by simp
  then have "\<lfloor>(3 / 4 :: rat) * of_nat ?n\<rfloor> \<le> \<lfloor>(of_nat ?n :: rat)\<rfloor>" by (rule floor_mono)
  then have le: "nat \<lfloor>(3 / 4 :: rat) * of_nat ?n\<rfloor> \<le> ?n" by simp
  from nn have fl: "0 \<le> \<lfloor>(3 / 4 :: rat) * of_nat ?n\<rfloor>" by simp
  show ?thesis
    unfolding split_file_names_def Let_def p
    using nn fl le by (simp add: py_int_def slice_to_def slice_from_def slice_index_def)
qed

section \<open>Facts about the partitioner\<close>

lemma digit_val_digit_char: "d < 10 \<Longrightarrow> digit_val (digit_char d) = d"
  by (simp add: digit_val_def digit_char_def)

lemma nat_of_str_str_nat: "nat_of_str (str_nat n) = n"
proof (induction n rule: str_nat.induct)
  case (1 n)
  show ?case
  proof (cases "n < 10")
    case True
    then show ?thesis
      by (subst str_nat.simps) (simp add: nat_of_str_def digit_val_digit_char)
  next
    case False
    with "1.IH" have "nat_of_str (str_nat (n div 10)) = n div 10" by simp
    with False show ?thesis
      by (subst str_nat.simps) (simp add: nat_of_str_def digit_val_digit_char)
  qed
qed

lemma str_nat_inject: "str_nat m = str_nat n \<Longrightarrow> m = n"
  by (metis nat_of_str_str_nat)

lemma digit_char_no_slash: "d < 10 \<Longrightarrow> digit_char d \<noteq> CHR ''/''"
proof
  assume d: "d < 10" and "digit_char d = CHR ''/''"
  then have "(of_char (digit_char d) :: nat) = of_char (CHR ''/'')" by simp
  with d show False by (simp add: digit_char_def)
qed

lemma str_nat_no_slash: "CHR ''/'' \<notin> set (str_nat n)"
proof (induction n rule: str_nat.induct)
  case (1 n)
  show ?case
  proof (cases "n < 10")
    case True
    then show ?thesis
      using digit_char_no_slash [of n] by (subst str_nat.simps) auto
  next
    case False
    with "1.IH" have "CHR ''/'' \<notin> set (str_nat (n div 10))" by simp
    with False show ?thesis
      using digit_char_no_slash [of "n mod 10"] by (subst str_nat.simps) auto
  qed
qed

lemma path_split_join:
  assumes "CHR ''/'' \<notin> set name" "name \<noteq> []" "d \<noteq> []" "last d \<noteq> CHR ''/''"
  shows "path_join d name = d @ ''/'' @ name" and "path_split (d @ ''/'' @ name) = (d, name)"
proof -
  from assms have "hd name \<noteq> CHR ''/''" by (cases name) auto
  with assms show "path_join d name = d @ ''/'' @ name" by (simp add: path_join_def)
  have r: "rev (d @ ''/'' @ name) = rev name @ CHR ''/'' # rev d" by simp
  have t: "takeWhile (\<lambda>c. c \<noteq> CHR ''/'') (rev name @ CHR ''/'' # rev d) = rev name"
    using assms(1) by (subst takeWhile_append2) auto
  have dr: "dropWhile (\<lambda>c. c \<noteq> CHR ''/'') (rev name @ CHR ''/'' # rev d) = CHR ''/'' # rev d"
    using assms(1) by (subst dropWhile_append2) auto
  have nd: "\<not> list_all (\<lambda>c. c = CHR ''/'') (d @ ''/'')"
  proof
    assume "list_all (\<lambda>c. c = CHR ''/'') (d @ ''/'')"
    then have "\<forall>c\<in>set d. c = CHR ''/''" by (simp add: list_all_iff)
    moreover have "last d \<in> set d" using assms(3) by simp
    ultimately show False using assms(4) by blast
  qed
  have hd: "hd (rev d) \<noteq> CHR ''/''" using assms(3,4) by (simp add: hd_rev)
  then have s: "dropWhile (\<lambda>c. c = CHR ''/'') (CHR ''/'' # rev d) = rev d"
    using assms(3) by (cases "rev d") simp_all
  show "path_split (d @ ''/'' @ name) = (d, name)"
    unfolding path_split_def r t dr Let_def using nd s by simp
qed

lemma proc_path_shape:
  "proc_input_path partition_name \<noteq> []" "last (proc_input_path partition_name) \<noteq> CHR ''/''"
  "proc_output_path partition_name \<noteq> []" "last (proc_output_path partition_name) \<noteq> CHR ''/''"
  by (simp_all add: proc_input_path_def proc_output_path_def path_join_def BOGUS_CLASS_def)

lemma dir_exists_written [simp]: "dir_exists (fs\<lparr>written := w\<rparr>) d = dir_exists fs d"
  by (simp add: dir_exists_def)

lemma save_image_tile:
  assumes "d \<noteq> []" "last d \<noteq> CHR ''/''"
  shows "save_image fs (path_join d (str_nat n @ ''.png'')) im =
     (if dir_exists fs d
      then (None, fs\<lparr>written := written fs @ [(path_join d (str_nat n @ ''.png''), im)]\<rparr>)
      else (Some FileNotFoundError, fs))"
proof -
  have ns: "CHR ''/'' \<notin> set (str_nat n @ ''.png'')" using str_nat_no_slash [of n] by simp
  have ne: "str_nat n @ ''.png'' \<noteq> []" by simp
  note j = path_split_join [OF ns ne assms]
  show ?thesis
    unfolding save_image_def j(1) j(2) using assms(1) by simp
qed

lemma pair_writes_Nil: "pair_writes pin pout start [] = []"
  by (simp add: pair_writes_def)

lemma pair_writes_Cons:
  "pair_writes pin pout start ((a, b) # pairs) =
     (path_join pin (str_nat start @ ''.png''), a) #
     (path_join pout (str_nat start @ ''.png''), b) #
     pair_writes pin pout (Suc start) pairs"
  by (simp add: pair_writes_def)

lemma pair_writes_append:
  "pair_writes pin pout start (xs @ ys) =
     pair_writes pin pout start xs @ pair_writes pin pout (start + length xs) ys"
  by (simp add: pair_writes_def enumerate_append_eq)

text \<open>The loop over the tile pairs: what it returns and leaves, for directory paths of
  the form the module builds.\<close>

lemma save_tile_pairs_eq:
  assumes "pin \<noteq> []" "last pin \<noteq> CHR ''/''" "pout \<noteq> []" "last pout \<noteq> CHR ''/''"
  shows "save_tile_pairs pin pout pairs idx fs =
     (if pairs = [] \<or> (dir_exists fs pin \<and> dir_exists fs pout)
      then (None, idx + length pairs,
            fs\<lparr>written := written fs @ pair_writes pin pout idx pairs\<rparr>)
      else if dir_exists fs pin
      then (Some FileNotFoundError, idx,
            fs\<lparr>written := written fs @ take 1 (pair_writes pin pout idx pairs)\<rparr>)
      else (Some FileNotFoundError, idx, fs))"
proof (induction pairs arbitrary: idx fs)
  case Nil
  show ?case by (simp add: pair_writes_Nil)
next
  case (Cons p pairs)
  obtain a b where p: "p = (a, b)" by (cases p)
  show ?case
    unfolding p
    by (simp add: save_image_tile [OF assms(1,2)] save_image_tile [OF assms(3,4)]
        Cons.IH pair_writes_Cons Let_def)
qed

lemma save_tile_pairs_props:
  assumes "pin \<noteq> []" "last pin \<noteq> CHR ''/''" "pout \<noteq> []" "last pout \<noteq> CHR ''/''"
    and "save_tile_pairs pin pout pairs idx fs = (r, idx', fs')"
  shows "dirs fs' = dirs fs"
    and "\<exists>m. written fs' = written fs @ take m (pair_writes pin pout idx pairs)"
    and "r = None \<Longrightarrow>
      written fs' = written fs @ pair_writes pin pout idx pairs \<and> idx' = idx + length pairs"
    and "dir_exists fs pin \<Longrightarrow> dir_exists fs pout \<Longrightarrow> r = None"
proof -
  note e = save_tile_pairs_eq [OF assms(1-4), of pairs idx fs]
  show "dirs fs' = dirs fs"
    using e assms(5) by (auto split: if_splits)
  show "\<exists>m. written fs' = written fs @ take m (pair_writes pin pout idx pairs)"
  proof (cases "pairs = [] \<or> (dir_exists fs pin \<and> dir_exists fs pout)")
    case True
    with e assms(5) have "written fs' = written fs @
        take (length (pair_writes pin pout idx pairs)) (pair_writes pin pout idx pairs)"
      by auto
    then show ?thesis by blast
  next
    case False
    show ?thesis
    proof (cases "dir_exists fs pin")
      case True
      with False e assms(5)
      have "written fs' = written fs @ take 1 (pair_writes pin pout idx pairs)" by auto
      then show ?thesis by blast
    next
      case no: False
      with False e assms(5)
      have "written fs' = written fs @ take 0 (pair_writes pin pout idx pairs)" by auto
      then show ?thesis by blast
    qed
  qed
  show "r = None \<Longrightarrow>
      written fs' = written fs @ pair_writes pin pout idx pairs \<and> idx' = idx + length pairs"
    using e assms(5) by (auto split: if_splits)
  show "dir_exists fs pin \<Longrightarrow> dir_exists fs pout \<Longrightarrow> r = None"
    using e assms(5) by (auto split: if_splits)
qed

lemma tile_image_module: "tile_image im tile_size tile_stride = Inr (image_tiles im)"
  by (simp add: tile_image_offsets image_tiles_def image_offsets_def tile_stride_def)

lemma image_tiles_Nil: "image_tiles [] = []"
  by (simp add: image_tiles_def image_offsets_def shape_rows_def tile_offsets_no_rows)

text \<open>When a file loads and its array is tiled without an exception, the tiles are those
  the specification's \<open>file_tiles\<close> names.\<close>

lemma tile_array_file_tiles:
  assumes "load_image dir file_name = Inr arr"
    and "tile_array arr tile_size tile_stride = Inr tiles"
  shows "tiles = file_tiles dir file_name"
proof (cases arr)
  case (Array3 im)
  with assms(1) have "file_image dir file_name = im"
    by (auto simp: load_image_def file_image_def split: option.splits)
  with assms(2) Array3 show ?thesis
    by (simp add: tile_array_def tile_image_module file_tiles_def)
next
  case (Array2 im)
  with assms(1) have "file_image dir file_name = []"
    by (auto simp: load_image_def file_image_def split: option.splits)
  with assms(2) Array2 show ?thesis
    by (auto simp: tile_array_def tile_image_module file_tiles_def image_tiles_Nil
        split: list.splits)
qed

lemma holds_colour_load:
  assumes "holds_colour dir file_name"
  shows "load_image dir file_name = Inr (Array3 (file_image dir file_name))"
  using assms
  by (auto simp: holds_colour_def load_image_def file_image_def
      split: option.splits array.splits)

lemma tile_pairs_Cons:
  "tile_pairs raw_output raw_input (file_name # rest) =
     zip (file_tiles raw_input file_name) (file_tiles raw_output file_name) @
     tile_pairs raw_output raw_input rest"
  by (simp add: tile_pairs_def)

lemma holds_colour_tiles:
  assumes "holds_colour dir file_name"
  shows "tile_array (Array3 (file_image dir file_name)) tile_size tile_stride =
     Inr (file_tiles dir file_name)"
  by (simp add: tile_array_def tile_image_module file_tiles_def)

text \<open>The loop over the files, for directory paths of the form the module builds: the
  directories stay, the files written are a prefix of the specification's list, the whole
  list when no exception is raised, and no exception is raised when every file holds a
  three-axis array and the two directories exist.\<close>

lemma process_files_props:
  assumes sh: "pin \<noteq> []" "last pin \<noteq> CHR ''/''" "pout \<noteq> []" "last pout \<noteq> CHR ''/''"
  shows "dirs (snd (snd (process_files ro ri pin pout names idx fs))) = dirs fs \<and>
     (\<exists>m. written (snd (snd (process_files ro ri pin pout names idx fs))) =
        written fs @ take m (pair_writes pin pout idx (tile_pairs ro ri names))) \<and>
     (fst (process_files ro ri pin pout names idx fs) = None \<longrightarrow>
        written (snd (snd (process_files ro ri pin pout names idx fs))) =
          written fs @ pair_writes pin pout idx (tile_pairs ro ri names)) \<and>
     (colour_loadable ro ri names \<and> dir_exists fs pin \<and> dir_exists fs pout \<longrightarrow>
        fst (process_files ro ri pin pout names idx fs) = None)"
proof (induction names arbitrary: idx fs)
  case Nil
  show ?case by (simp add: tile_pairs_def pair_writes_Nil)
next
  case (Cons f rest)
  let ?W = "pair_writes pin pout idx (tile_pairs ro ri (f # rest))"
  let ?R = "process_files ro ri pin pout (f # rest) idx fs"
  have stop: ?case
    if r: "?R = (Some e, idx, fs)"
      and nc: "\<not> (holds_colour ro f \<and> holds_colour ri f)" for e
  proof -
    have "written fs = written fs @ take 0 ?W" by simp
    then have "\<exists>m. written fs = written fs @ take m ?W" by blast
    with r nc show ?thesis by (auto simp add: colour_loadable_def simp del: process_files.simps)
  qed
  show ?case
  proof (cases "load_image ro f")
    case (Inl e)
    then have "?R = (Some e, idx, fs)" by simp
    moreover from Inl have "\<not> holds_colour ro f"
      by (auto simp: holds_colour_load)
    ultimately show ?thesis by (intro stop) simp_all
  next
    case lo: (Inr output_im)
    show ?thesis
    proof (cases "load_image ri f")
      case (Inl e)
      with lo have "?R = (Some e, idx, fs)" by simp
      moreover from Inl have "\<not> holds_colour ri f"
        by (auto simp: holds_colour_load)
      ultimately show ?thesis by (intro stop) simp_all
    next
      case li: (Inr input_im)
      show ?thesis
      proof (cases "tile_array input_im tile_size tile_stride")
        case (Inl e)
        with lo li have "?R = (Some e, idx, fs)" by simp
        moreover have "\<not> holds_colour ri f"
        proof
          assume h: "holds_colour ri f"
          with li have "input_im = Array3 (file_image ri f)" by (simp add: holds_colour_load)
          with Inl holds_colour_tiles [OF h] show False by simp
        qed
        ultimately show ?thesis by (intro stop) simp_all
      next
        case ti: (Inr input_tiles)
        show ?thesis
        proof (cases "tile_array output_im tile_size tile_stride")
          case (Inl e)
          with lo li ti have "?R = (Some e, idx, fs)" by simp
          moreover have "\<not> holds_colour ro f"
          proof
            assume h: "holds_colour ro f"
            with lo have "output_im = Array3 (file_image ro f)" by (simp add: holds_colour_load)
            with Inl holds_colour_tiles [OF h] show False by simp
          qed
          ultimately show ?thesis by (intro stop) simp_all
        next
          case to: (Inr output_tiles)
          have it: "input_tiles = file_tiles ri f" using li ti by (rule tile_array_file_tiles)
          have ot: "output_tiles = file_tiles ro f" using lo to by (rule tile_array_file_tiles)
          let ?pairs = "zip (file_tiles ri f) (file_tiles ro f)"
          let ?W1 = "pair_writes pin pout idx ?pairs"
          let ?W2 = "pair_writes pin pout (idx + length ?pairs) (tile_pairs ro ri rest)"
          have W: "?W = ?W1 @ ?W2" by (simp add: tile_pairs_Cons pair_writes_append)
          obtain r idx' fs' where s: "save_tile_pairs pin pout ?pairs idx fs = (r, idx', fs')"
            by (cases "save_tile_pairs pin pout ?pairs idx fs")
          note p = save_tile_pairs_props [OF sh s]
          show ?thesis
          proof (cases r)
            case (Some e)
            with lo li ti to it ot s have R: "?R = (Some e, idx', fs')" by simp
            from p(2) obtain m where m: "written fs' = written fs @ take m ?W1" by blast
            have "take m ?W1 = take (min m (length ?W1)) ?W"
              by (cases "m \<le> length ?W1") (simp_all add: W min_def)
            with m have "\<exists>m. written fs' = written fs @ take m ?W" by metis
            moreover from Some p(4) have "\<not> (dir_exists fs pin \<and> dir_exists fs pout)" by auto
            ultimately show ?thesis using R p(1) by simp
          next
            case None
            with lo li ti to it ot s
            have R: "?R = process_files ro ri pin pout rest idx' fs'" by simp
            from None p(3) have w: "written fs' = written fs @ ?W1"
              and i: "idx' = idx + length ?pairs" by simp_all
            from p(1) have de: "dir_exists fs' d = dir_exists fs d" for d
              by (simp add: dir_exists_def)
            note IH = Cons.IH [of idx' fs']
            let ?Q = "process_files ro ri pin pout rest idx' fs'"
            from IH obtain m where m: "written (snd (snd ?Q)) = written fs' @ take m ?W2"
              unfolding i by blast
            have "written fs' @ take m ?W2 = written fs @ take (length ?W1 + m) ?W"
              by (simp add: w W)
            with m have pre: "\<exists>m. written (snd (snd ?Q)) = written fs @ take m ?W" by metis
            have full: "written (snd (snd ?Q)) = written fs @ ?W" if "fst ?Q = None"
              using IH that by (simp add: w W i)
            have ok: "fst ?Q = None"
              if "colour_loadable ro ri (f # rest)" "dir_exists fs pin" "dir_exists fs pout"
              using IH that by (simp add: de colour_loadable_def)
            from IH p(1) have "dirs (snd (snd ?Q)) = dirs fs" by simp
            with pre full ok show ?thesis unfolding R by blast
          qed
        qed
      qed
    qed
  qed
qed

lemma priv_process_data_eq:
  "priv_process_data ro ri names pn fs =
     (case process_files ro ri (proc_input_path pn) (proc_output_path pn) names 0
             (after_makedirs fs pn) of
        (r, idx, fs3) \<Rightarrow> (r, fs3))"
  by (simp add: priv_process_data_def priv_makedirs_eq after_makedirs_def)

lemma written_after_makedirs: "written (after_makedirs fs pn) = written fs"
  by (simp add: after_makedirs_def priv_makedirs_eq written_makedirs)

lemma priv_process_data_props:
  "(\<exists>m. written (snd (priv_process_data ro ri names pn fs)) =
      written fs @
        take m (pair_writes (proc_input_path pn) (proc_output_path pn) 0
                  (tile_pairs ro ri names))) \<and>
   (fst (priv_process_data ro ri names pn fs) = None \<longrightarrow>
      written (snd (priv_process_data ro ri names pn fs)) =
        written fs @
          pair_writes (proc_input_path pn) (proc_output_path pn) 0 (tile_pairs ro ri names)) \<and>
   (colour_loadable ro ri names \<and> partition_ready fs pn \<longrightarrow>
      fst (priv_process_data ro ri names pn fs) = None) \<and>
   dirs (snd (priv_process_data ro ri names pn fs)) = dirs (after_makedirs fs pn)"
proof -
  let ?Q = "process_files ro ri (proc_input_path pn) (proc_output_path pn) names 0
      (after_makedirs fs pn)"
  have R: "priv_process_data ro ri names pn fs = (fst ?Q, snd (snd ?Q))"
    by (simp add: priv_process_data_eq split: prod.splits)
  note P = process_files_props [of "proc_input_path pn" "proc_output_path pn" ro ri names 0
      "after_makedirs fs pn", OF proc_path_shape]
  show ?thesis
    unfolding R using P by (simp add: written_after_makedirs partition_ready_def)
qed

lemma tile_pairs_positions:
  "tile_pairs ro ri names =
     map (\<lambda>(file_name, (input_row, input_col), (output_row, output_col)).
            (slice2 (file_image ri file_name) input_row input_col tile_size,
             slice2 (file_image ro file_name) output_row output_col tile_size))
       (paired_positions ro ri names)"
proof (induction names)
  case Nil
  show ?case by (simp add: tile_pairs_def paired_positions_def)
next
  case (Cons f rest)
  have pp: "paired_positions ro ri (f # rest) =
      map (Pair f) (zip (file_offsets ri f) (file_offsets ro f)) @ paired_positions ro ri rest"
    by (simp add: paired_positions_def)
  show ?case
    unfolding tile_pairs_Cons pp Cons.IH
    by (simp add: file_tiles_def image_tiles_def file_offsets_def zip_map_map comp_def
        case_prod_unfold)
qed

lemma enumerate_map:
  "enumerate n (map h xs) = map (\<lambda>(i, x). (i, h x)) (enumerate n xs)"
  by (induction xs arbitrary: n) simp_all

lemma pair_writes_positions:
  "pair_writes (proc_input_path pn) (proc_output_path pn) 0 (tile_pairs ro ri names) =
     partition_writes ro ri names pn"
  unfolding tile_pairs_positions
  by (simp add: pair_writes_def partition_writes_def enumerate_map comp_def case_prod_unfold)

lemma matched_positions:
  assumes "matched ro ri names" and "(f, a, b) \<in> set (paired_positions ro ri names)"
  shows "a = b"
proof -
  from assms(2) have f: "f \<in> set names"
    and ab: "(a, b) \<in> set (zip (file_offsets ri f) (file_offsets ro f))"
    by (auto simp: paired_positions_def)
  from assms(1) f have "same_shape (file_image ri f) (file_image ro f)"
    by (simp add: matched_def list_all_iff)
  then have "file_offsets ro f = file_offsets ri f"
    by (simp add: file_offsets_def image_offsets_def same_shape_def)
  with ab show ?thesis by (simp add: zip_same)
qed

text \<open>Directory creation does not look at the files written, and the loops of the
  partitioner change nothing but the files written.\<close>

lemma mkdir_written_update:
  "mkdir (fs\<lparr>written := w\<rparr>) name =
     (fst (mkdir fs name), (snd (mkdir fs name))\<lparr>written := w\<rparr>)"
  by (simp add: mkdir_def)

lemma makedirs_written_update:
  "makedirs (fs\<lparr>written := w\<rparr>) name =
     (fst (makedirs fs name), (snd (makedirs fs name))\<lparr>written := w\<rparr>)"
proof (induction fs name rule: makedirs.induct)
  case (1 fs name)
  let ?c = "fst (parent_and_leaf name) \<noteq> [] \<and> snd (parent_and_leaf name) \<noteq> [] \<and>
      \<not> dir_exists fs (fst (parent_and_leaf name))"
  show ?case
  proof (cases ?c)
    case False
    have "makedirs fs name = mkdir fs name"
      by (subst makedirs.simps) (simp only: False if_False)
    moreover have "makedirs (fs\<lparr>written := w\<rparr>) name = mkdir (fs\<lparr>written := w\<rparr>) name"
      by (subst makedirs.simps) (simp only: dir_exists_written False if_False)
    ultimately show ?thesis by (simp add: mkdir_written_update)
  next
    case True
    obtain r fs' where r: "makedirs fs (fst (parent_and_leaf name)) = (r, fs')"
      by (cases "makedirs fs (fst (parent_and_leaf name))")
    with "1.IH" [OF True]
    have r': "makedirs (fs\<lparr>written := w\<rparr>) (fst (parent_and_leaf name)) =
        (r, fs'\<lparr>written := w\<rparr>)"
      by simp
    have a: "makedirs fs name =
        (case (r, fs') of
           (None, fs') \<Rightarrow>
             if snd (parent_and_leaf name) = ''.'' then (None, fs') else mkdir fs' name
         | (Some e, fs') \<Rightarrow>
             if e = FileExistsError
             then (if snd (parent_and_leaf name) = ''.'' then (None, fs') else mkdir fs' name)
             else (Some e, fs'))"
      by (subst makedirs.simps) (simp add: True r)
    have b: "makedirs (fs\<lparr>written := w\<rparr>) name =
        (case (r, fs'\<lparr>written := w\<rparr>) of
           (None, fs') \<Rightarrow>
             if snd (parent_and_leaf name) = ''.'' then (None, fs') else mkdir fs' name
         | (Some e, fs') \<Rightarrow>
             if e = FileExistsError
             then (if snd (parent_and_leaf name) = ''.'' then (None, fs') else mkdir fs' name)
             else (Some e, fs'))"
      using True by (subst makedirs.simps) (simp add: r')
    show ?thesis
      unfolding a b by (simp add: mkdir_written_update split: option.splits)
  qed
qed

lemma after_makedirs_written_update:
  "after_makedirs (fs\<lparr>written := w\<rparr>) pn = (after_makedirs fs pn)\<lparr>written := w\<rparr>"
  by (simp add: after_makedirs_def priv_makedirs_eq makedirs_written_update)

lemma partition_ready_written_update:
  "partition_ready (fs\<lparr>written := w\<rparr>) pn = partition_ready fs pn"
  by (simp add: partition_ready_def after_makedirs_written_update)

lemma save_image_keeps:
  "dirs (snd (save_image fs p im)) = dirs fs \<and> denied (snd (save_image fs p im)) = denied fs"
  by (simp add: save_image_def)

lemma save_tile_pairs_keeps:
  "dirs (snd (snd (save_tile_pairs pin pout pairs idx fs))) = dirs fs \<and>
   denied (snd (snd (save_tile_pairs pin pout pairs idx fs))) = denied fs"
proof (induction pairs arbitrary: idx fs)
  case Nil
  show ?case by simp
next
  case (Cons p pairs)
  obtain a b where p: "p = (a, b)" by (cases p)
  let ?n = "str_nat idx @ ''.png''"
  obtain r1 fs1 where s1: "save_image fs (path_join pin ?n) a = (r1, fs1)"
    by (cases "save_image fs (path_join pin ?n) a")
  obtain r2 fs2 where s2: "save_image fs1 (path_join pout ?n) b = (r2, fs2)"
    by (cases "save_image fs1 (path_join pout ?n) b")
  from save_image_keeps [of fs "path_join pin ?n" a] s1
  have k1: "dirs fs1 = dirs fs" "denied fs1 = denied fs" by simp_all
  from save_image_keeps [of fs1 "path_join pout ?n" b] s2 k1
  have k2: "dirs fs2 = dirs fs" "denied fs2 = denied fs" by simp_all
  show ?case
    unfolding p using s1 s2 k1 k2 Cons.IH [of "idx + 1" fs2]
    by (simp add: Let_def split: option.splits)
qed

lemma process_files_keeps:
  "dirs (snd (snd (process_files ro ri pin pout names idx fs))) = dirs fs \<and>
   denied (snd (snd (process_files ro ri pin pout names idx fs))) = denied fs"
proof (induction names arbitrary: idx fs)
  case Nil
  show ?case by simp
next
  case (Cons f rest)
  have step: "dirs (snd (snd (case save_tile_pairs pin pout pairs idx fs of
        (Some e, idx', fs') \<Rightarrow> (Some e, idx', fs')
      | (None, idx', fs') \<Rightarrow> process_files ro ri pin pout rest idx' fs'))) = dirs fs \<and>
      denied (snd (snd (case save_tile_pairs pin pout pairs idx fs of
        (Some e, idx', fs') \<Rightarrow> (Some e, idx', fs')
      | (None, idx', fs') \<Rightarrow> process_files ro ri pin pout rest idx' fs'))) = denied fs"
    for pairs
  proof -
    obtain r idx' fs' where s: "save_tile_pairs pin pout pairs idx fs = (r, idx', fs')"
      by (cases "save_tile_pairs pin pout pairs idx fs")
    from save_tile_pairs_keeps [of pin pout pairs idx fs] s
    have k: "dirs fs' = dirs fs" "denied fs' = denied fs" by simp_all
    show ?thesis
      using s k Cons.IH [of idx' fs'] by (cases r) simp_all
  qed
  show ?case
    using step by (simp split: sum.splits)
qed

lemma filesystem_written_only:
  fixes fs fs' :: "'a filesystem"
  assumes "dirs fs' = dirs fs" "denied fs' = denied fs"
  shows "fs' = fs\<lparr>written := written fs'\<rparr>"
  using assms by (cases fs, cases fs') simp

lemma priv_process_data_state:
  "snd (priv_process_data ro ri names pn fs) =
     (after_makedirs fs pn)\<lparr>written := written (snd (priv_process_data ro ri names pn fs))\<rparr>"
proof -
  let ?Q = "process_files ro ri (proc_input_path pn) (proc_output_path pn) names 0
      (after_makedirs fs pn)"
  have R: "priv_process_data ro ri names pn fs = (fst ?Q, snd (snd ?Q))"
    by (simp add: priv_process_data_eq split: prod.splits)
  show ?thesis
    unfolding R snd_conv
    by (rule filesystem_written_only) (simp_all add: process_files_keeps)
qed

subsection \<open>Evaluation at the concrete inputs\<close>

lemma shape_rows_replicate: "shape_rows (replicate n row) = n"
  by (simp add: shape_rows_def)

lemma shape_cols_replicate: "0 < n \<Longrightarrow> shape_cols (replicate n row @ rest) = length row"
  by (cases n) (simp_all add: shape_cols_def)

lemma slice2_replicate:
  "slice2 (replicate n row) r c sz = replicate (min sz (n - r)) (take sz (drop c row))"
  by (simp add: slice2_def)

lemma tile_offsets_200_300: "tile_offsets 200 300 200 100 = [(0, 0), (0, 100)]"
  by (simp add: tile_offsets_def range_from.simps)

lemma tile_offsets_300_200: "tile_offsets 300 200 200 100 = [(0, 0), (100, 0)]"
  by (simp add: tile_offsets_def range_from.simps)

lemma str_nat_digits:
  "str_nat 0 = ''0''" "str_nat (Suc 0) = ''1''" "str_nat 2 = ''2''" "str_nat 3 = ''3''"
  "str_nat (Suc (Suc 0)) = ''2''" "str_nat (Suc (Suc (Suc 0))) = ''3''"
  by code_simp+

lemma proc_paths:
  "proc_input_path TRAIN = ''/opt/data/processed_data/vaihingen/train/input/bogus_class''"
  "proc_output_path TRAIN = ''/opt/data/processed_data/vaihingen/train/output/bogus_class''"
  "proc_input_path VALIDATION =
     ''/opt/data/processed_data/vaihingen/validation/input/bogus_class''"
  "proc_output_path VALIDATION =
     ''/opt/data/processed_data/vaihingen/validation/output/bogus_class''"
  by (simp_all add: proc_input_path_def proc_output_path_def proc_data_path_def data_path_def
      path_join_def TRAIN_def VALIDATION_def INPUT_def OUTPUT_def BOGUS_CLASS_def)

lemma tile_file_names:
  "path_join ''/opt/data/processed_data/vaihingen/train/input/bogus_class'' (c # ''.png'') =
     ''/opt/data/processed_data/vaihingen/train/input/bogus_class/'' @ c # ''.png''"
  "path_join ''/opt/data/processed_data/vaihingen/train/output/bogus_class'' (c # ''.png'') =
     ''/opt/data/processed_data/vaihingen/train/output/bogus_class/'' @ c # ''.png''"
  "path_join ''/opt/data/processed_data/vaihingen/validation/input/bogus_class'' (c # ''.png'') =
     ''/opt/data/processed_data/vaihingen/validation/input/bogus_class/'' @ c # ''.png''"
  "path_join ''/opt/data/processed_data/vaihingen/validation/output/bogus_class'' (c # ''.png'') =
     ''/opt/data/processed_data/vaihingen/validation/output/bogus_class/'' @ c # ''.png''"
  if "c \<noteq> CHR ''/''"
  using that by (simp_all add: path_join_def)

lemma ready_train: "partition_ready empty_fs TRAIN"
  by code_simp

lemma ready_validation: "partition_ready (after_makedirs empty_fs TRAIN) VALIDATION"
  by code_simp

text \<open>The whole pipeline on an empty file system whose files hold three-axis arrays.\<close>

lemma process_data_empty_fs:
  assumes split: "split_file_names train_ratio (tif_file_names ro) = (train, val)"
    and ct: "colour_loadable ro ri train" and cv: "colour_loadable ro ri val"
  shows "fst (process_data ro ri empty_fs) = None \<and>
     written (snd (process_data ro ri empty_fs)) =
       partition_writes ro ri train TRAIN @ partition_writes ro ri val VALIDATION"
proof -
  let ?R1 = "priv_process_data ro ri train TRAIN empty_fs"
  note P1 = priv_process_data_props [of ro ri train TRAIN empty_fs]
  from P1 ct ready_train have ok1: "fst ?R1 = None" by blast
  with P1 have w1: "written (snd ?R1) = partition_writes ro ri train TRAIN"
    by (simp add: pair_writes_positions empty_fs_def)
  have s1: "snd ?R1 = (after_makedirs empty_fs TRAIN)\<lparr>written := written (snd ?R1)\<rparr>"
    by (rule priv_process_data_state)
  have r2: "partition_ready (snd ?R1) VALIDATION"
    by (subst s1) (simp add: partition_ready_written_update ready_validation)
  let ?R2 = "priv_process_data ro ri val VALIDATION (snd ?R1)"
  note P2 = priv_process_data_props [of ro ri val VALIDATION "snd ?R1"]
  from P2 cv r2 have ok2: "fst ?R2 = None" by blast
  with P2 have w2: "written (snd ?R2) =
      partition_writes ro ri train TRAIN @ partition_writes ro ri val VALIDATION"
    by (simp add: pair_writes_positions w1)
  have "process_data ro ri empty_fs = ?R2"
    using ok1 by (simp add: process_data_def split prod_eq_iff split: prod.splits option.splits)
  with ok2 w2 show ?thesis by simp
qed

section \<open>Claims about the partitioner\<close>

text \<open>
  C5, as the specification states it, fails on the code for train ratios other than the
  module's. The number of train files is \<^verbatim>\<open>int(nb_files * train_ratio)\<close>, a product in
  double precision. With the ratio 0.29 and 100 files the product is rounded below 29 and
  28 files go to train, where \<open>\<lfloor>0.29 * 100\<rfloor> = 29\<close>. With the ratio 0.6 and 5 files the
  product is rounded up to 3 and 3 files go to train, where the double 0.6 times 5 is
  below 3.
\<close>

theorem split_file_names_rounds:
  "length (fst (split_file_names (float_literal (29 / 100)) (replicate 100 ''a.tif''))) = 28 \<and>
   \<lfloor>(29 / 100 :: rat) * 100\<rfloor> = 29 \<and>
   length (fst (split_file_names (float_literal (6 / 10)) (replicate 5 ''a.tif''))) = 3 \<and>
   \<lfloor>float_literal (6 / 10) * 5\<rfloor> = 2"
proof -
  have a: "py_int (float_mul (float_of_nat 100) (float_literal (29 / 100))) = 28"
    by code_simp
  have b: "py_int (float_mul (float_of_nat 5) (float_literal (6 / 10))) = 3"
    by code_simp
  have b': "py_int (float_mul (float_of_nat 5) (float_literal (3 / 5))) = 3"
    by code_simp
  have c: "\<lfloor>float_literal (6 / 10) * 5\<rfloor> = 2"
    by code_simp
  have "length (fst (split_file_names (float_literal (29 / 100)) (replicate 100 ''a.tif''))) = 28"
    by (simp add: split_file_names_def Let_def a slice_to_def slice_index_def)
  moreover
  have "length (fst (split_file_names (float_literal (6 / 10)) (replicate 5 ''a.tif''))) = 3"
    by (simp add: split_file_names_def Let_def b b' slice_to_def slice_index_def)
  ultimately show ?thesis using c by simp
qed

text \<open>
  C5, amended. With the module's train ratio 0.75 and a listing of fewer than \<open>2 ^ 51\<close>
  names that end in \<^verbatim>\<open>.tif\<close>, \<^verbatim>\<open>process_data\<close> hands the first \<open>\<lfloor>0.75 * n\<rfloor>\<close> of
  the \<open>n\<close> names, in the order of the listing, to the train partition and the remaining
  ones, in their order, to the validation partition, which is processed when the train
  partition raised no exception; nothing is shuffled. With four names, three go to train
  and one to validation.
\<close>

theorem process_data_split:
  assumes "length (tif_file_names raw_output) < 2 ^ 51"
  shows "process_data raw_output raw_input fs =
       (let file_names = tif_file_names raw_output;
            nb_train_files = nat \<lfloor>(3 / 4 :: rat) * of_nat (length file_names)\<rfloor>
        in case priv_process_data raw_output raw_input (take nb_train_files file_names)
                  TRAIN fs of
             (Some e, fs') \<Rightarrow> (Some e, fs')
           | (None, fs') \<Rightarrow>
               priv_process_data raw_output raw_input (drop nb_train_files file_names)
                 VALIDATION fs') \<and>
     (length (tif_file_names raw_output) = 4 \<longrightarrow>
        split_file_names train_ratio (tif_file_names raw_output) =
          (take 3 (tif_file_names raw_output), drop 3 (tif_file_names raw_output)))"
proof -
  note s = split_file_names_train_ratio [OF assms]
  have "process_data raw_output raw_input fs =
       (let file_names = tif_file_names raw_output;
            nb_train_files = nat \<lfloor>(3 / 4 :: rat) * of_nat (length file_names)\<rfloor>
        in case priv_process_data raw_output raw_input (take nb_train_files file_names)
                  TRAIN fs of
             (Some e, fs') \<Rightarrow> (Some e, fs')
           | (None, fs') \<Rightarrow>
               priv_process_data raw_output raw_input (drop nb_train_files file_names)
                 VALIDATION fs')"
    by (simp add: process_data_def Let_def s)
  moreover have "split_file_names train_ratio (tif_file_names raw_output) =
      (take 3 (tif_file_names raw_output), drop 3 (tif_file_names raw_output))"
    if "length (tif_file_names raw_output) = 4"
    using s that by simp
  ultimately show ?thesis by blast
qed

theorem process_data_split_witness:
  "tif_file_names four_raw_output = [''a.tif'', ''b.tif'', ''c.tif'', ''d.tif''] \<and>
   split_file_names train_ratio (tif_file_names four_raw_output) =
     ([''a.tif'', ''b.tif'', ''c.tif''], [''d.tif'']) \<and>
   fst (process_data four_raw_output four_raw_input empty_fs) = None \<and>
   written (snd (process_data four_raw_output four_raw_input empty_fs)) =
     [(''/opt/data/processed_data/vaihingen/train/input/bogus_class/0.png'',
       replicate 200 (replicate 200 [1, 1, 1])),
      (''/opt/data/processed_data/vaihingen/train/output/bogus_class/0.png'',
       replicate 200 (replicate 200 [255, 0, 0])),
      (''/opt/data/processed_data/vaihingen/train/input/bogus_class/1.png'',
       replicate 200 (replicate 200 [2, 2, 2])),
      (''/opt/data/processed_data/vaihingen/train/output/bogus_class/1.png'',
       replicate 200 (replicate 200 [255, 0, 0])),
      (''/opt/data/processed_data/vaihingen/train/input/bogus_class/2.png'',
       replicate 200 (replicate 200 [3, 3, 3])),
      (''/opt/data/processed_data/vaihingen/train/output/bogus_class/2.png'',
       replicate 200 (replicate 200 [255, 0, 0])),
      (''/opt/data/processed_data/vaihingen/validation/input/bogus_class/0.png'',
       replicate 200 (replicate 200 [4, 4, 4])),
      (''/opt/data/processed_data/vaihingen/validation/output/bogus_class/0.png'',
       replicate 200 (replicate 200 [255, 0, 0]))]"
proof -
  let ?names = "[''a.tif'', ''b.tif'', ''c.tif'', ''d.tif'']"
  have names: "tif_file_names four_raw_output = ?names"
    by (simp add: tif_file_names_def four_raw_output_def endswith_def)
  then have len: "length (tif_file_names four_raw_output) < 2 ^ 51"
    and four: "length (tif_file_names four_raw_output) = 4"
    by simp_all
  from process_data_split [OF len, of four_raw_input empty_fs] four
  have split: "split_file_names train_ratio (tif_file_names four_raw_output) =
      ([''a.tif'', ''b.tif'', ''c.tif''], [''d.tif''])"
    by (simp add: names)
  have ct: "colour_loadable four_raw_output four_raw_input [''a.tif'', ''b.tif'', ''c.tif'']"
    and cv: "colour_loadable four_raw_output four_raw_input [''d.tif'']"
    by (simp_all add: colour_loadable_def holds_colour_def four_raw_output_def
        four_raw_input_def)
  have im: "file_image four_raw_input ''a.tif'' = replicate 200 (replicate 200 [1, 1, 1])"
    "file_image four_raw_input ''b.tif'' = replicate 200 (replicate 200 [2, 2, 2])"
    "file_image four_raw_input ''c.tif'' = replicate 200 (replicate 200 [3, 3, 3])"
    "file_image four_raw_input ''d.tif'' = replicate 200 (replicate 200 [4, 4, 4])"
    "file_image four_raw_output ''a.tif'' = replicate 200 (replicate 200 [255, 0, 0])"
    "file_image four_raw_output ''b.tif'' = replicate 200 (replicate 200 [255, 0, 0])"
    "file_image four_raw_output ''c.tif'' = replicate 200 (replicate 200 [255, 0, 0])"
    "file_image four_raw_output ''d.tif'' = replicate 200 (replicate 200 [255, 0, 0])"
    by (simp_all add: file_image_def four_raw_input_def four_raw_output_def)
  have off: "image_offsets (replicate 200 (replicate 200 p)) = [(0, 0)]" for p :: "nat list"
    using shape_cols_replicate [of 200 "replicate 200 p" "[]"]
    by (simp add: image_offsets_def shape_rows_replicate tile_size_def tile_stride_def
        tile_offsets_200)
  have pt: "paired_positions four_raw_output four_raw_input [''a.tif'', ''b.tif'', ''c.tif''] =
      [(''a.tif'', (0, 0), (0, 0)), (''b.tif'', (0, 0), (0, 0)), (''c.tif'', (0, 0), (0, 0))]"
    and pv: "paired_positions four_raw_output four_raw_input [''d.tif''] =
      [(''d.tif'', (0, 0), (0, 0))]"
    by (simp_all add: paired_positions_def file_offsets_def im off)
  have wt: "partition_writes four_raw_output four_raw_input [''a.tif'', ''b.tif'', ''c.tif''] TRAIN =
     [(''/opt/data/processed_data/vaihingen/train/input/bogus_class/0.png'',
       replicate 200 (replicate 200 [1, 1, 1])),
      (''/opt/data/processed_data/vaihingen/train/output/bogus_class/0.png'',
       replicate 200 (replicate 200 [255, 0, 0])),
      (''/opt/data/processed_data/vaihingen/train/input/bogus_class/1.png'',
       replicate 200 (replicate 200 [2, 2, 2])),
      (''/opt/data/processed_data/vaihingen/train/output/bogus_class/1.png'',
       replicate 200 (replicate 200 [255, 0, 0])),
      (''/opt/data/processed_data/vaihingen/train/input/bogus_class/2.png'',
       replicate 200 (replicate 200 [3, 3, 3])),
      (''/opt/data/processed_data/vaihingen/train/output/bogus_class/2.png'',
       replicate 200 (replicate 200 [255, 0, 0]))]"
    unfolding partition_writes_def pt
    by (simp add: im slice2_replicate tile_size_def str_nat_digits proc_paths tile_file_names)
  have wv: "partition_writes four_raw_output four_raw_input [''d.tif''] VALIDATION =
     [(''/opt/data/processed_data/vaihingen/validation/input/bogus_class/0.png'',
       replicate 200 (replicate 200 [4, 4, 4])),
      (''/opt/data/processed_data/vaihingen/validation/output/bogus_class/0.png'',
       replicate 200 (replicate 200 [255, 0, 0]))]"
    unfolding partition_writes_def pv
    by (simp add: im slice2_replicate tile_size_def str_nat_digits proc_paths tile_file_names)
  from process_data_empty_fs [OF split ct cv] names split wt wv
  show ?thesis by simp
qed

text \<open>
  C6, as the specification states it, fails on the code: \<^verbatim>\<open>input/<N>.png\<close> and
  \<^verbatim>\<open>output/<N>.png\<close> do not always come from the same tile position. For one file whose
  input image has 300 by 300 pixels and whose label image has 300 rows and 200 columns,
  \<^verbatim>\<open>_process_data\<close> raises nothing and writes two pairs; the pair \<^verbatim>\<open>1.png\<close> holds the
  input tile at offset \<open>(0, 100)\<close> (all \<open>[2, 2, 2]\<close>: columns 100 and up) and the label
  tile at offset \<open>(100, 0)\<close> (all \<open>[0, 0, 255]\<close>: rows 100 and up).
\<close>

theorem priv_process_data_pairs_positions_apart:
  "fst (priv_process_data striped_raw_output striped_raw_input [''a.tif''] TRAIN empty_fs) = None \<and>
   written (snd (priv_process_data striped_raw_output striped_raw_input [''a.tif''] TRAIN
                   empty_fs)) =
     [(''/opt/data/processed_data/vaihingen/train/input/bogus_class/0.png'',
       replicate 200 (replicate 100 [1, 1, 1] @ replicate 100 [2, 2, 2])),
      (''/opt/data/processed_data/vaihingen/train/output/bogus_class/0.png'',
       replicate 100 (replicate 200 [255, 255, 255]) @ replicate 100 (replicate 200 [0, 0, 255])),
      (''/opt/data/processed_data/vaihingen/train/input/bogus_class/1.png'',
       replicate 200 (replicate 200 [2, 2, 2])),
      (''/opt/data/processed_data/vaihingen/train/output/bogus_class/1.png'',
       replicate 200 (replicate 200 [0, 0, 255]))] \<and>
   paired_positions striped_raw_output striped_raw_input [''a.tif''] =
     [(''a.tif'', (0, 0), (0, 0)), (''a.tif'', (0, 100), (100, 0))]"
proof -
  let ?R = "priv_process_data striped_raw_output striped_raw_input [''a.tif''] TRAIN empty_fs"
  let ?in = "replicate 300 (replicate 100 [1, 1, 1] @ replicate 200 [2, 2, 2 :: nat])"
  let ?out = "replicate 100 (replicate 200 [255, 255, 255]) @
      replicate 200 (replicate 200 [0, 0, 255 :: nat])"
  have im: "file_image striped_raw_input ''a.tif'' = ?in"
    "file_image striped_raw_output ''a.tif'' = ?out"
    by (simp_all add: file_image_def striped_raw_input_def striped_raw_output_def)
  have "image_offsets ?in = [(0, 0), (0, 100), (100, 0), (100, 100)]"
    using shape_cols_replicate [of 300 "replicate 100 [1, 1, 1] @ replicate 200 [2, 2, 2 :: nat]" "[]"]
    by (simp add: image_offsets_def shape_rows_replicate tile_size_def tile_stride_def
        tile_offsets_300)
  moreover have "image_offsets ?out = [(0, 0), (100, 0)]"
    using shape_cols_replicate [of 100 "replicate 200 [255, 255, 255 :: nat]"
        "replicate 200 (replicate 200 [0, 0, 255])"]
    by (simp add: image_offsets_def shape_rows_def tile_size_def tile_stride_def
        tile_offsets_300_200)
  ultimately have pp: "paired_positions striped_raw_output striped_raw_input [''a.tif''] =
      [(''a.tif'', (0, 0), (0, 0)), (''a.tif'', (0, 100), (100, 0))]"
    by (simp add: paired_positions_def file_offsets_def im)
  have i0: "slice2 (file_image striped_raw_input ''a.tif'') 0 0 200 =
      replicate 200 (replicate 100 [1, 1, 1] @ replicate 100 [2, 2, 2])"
    and i1: "slice2 (file_image striped_raw_input ''a.tif'') 0 100 200 =
      replicate 200 (replicate 200 [2, 2, 2])"
    by (simp_all add: im slice2_replicate)
  have o0: "slice2 (file_image striped_raw_output ''a.tif'') 0 0 200 =
      replicate 100 (replicate 200 [255, 255, 255]) @ replicate 100 (replicate 200 [0, 0, 255])"
    and o1: "slice2 (file_image striped_raw_output ''a.tif'') 100 0 200 =
      replicate 200 (replicate 200 [0, 0, 255])"
    by (simp_all add: im slice2_def)
  have w: "partition_writes striped_raw_output striped_raw_input [''a.tif''] TRAIN =
     [(''/opt/data/processed_data/vaihingen/train/input/bogus_class/0.png'',
       replicate 200 (replicate 100 [1, 1, 1] @ replicate 100 [2, 2, 2])),
      (''/opt/data/processed_data/vaihingen/train/output/bogus_class/0.png'',
       replicate 100 (replicate 200 [255, 255, 255]) @ replicate 100 (replicate 200 [0, 0, 255])),
      (''/opt/data/processed_data/vaihingen/train/input/bogus_class/1.png'',
       replicate 200 (replicate 200 [2, 2, 2])),
      (''/opt/data/processed_data/vaihingen/train/output/bogus_class/1.png'',
       replicate 200 (replicate 200 [0, 0, 255]))]"
    unfolding partition_writes_def pp
    by (simp add: tile_size_def i0 i1 o0 o1 str_nat_digits proc_paths tile_file_names)
  have cl: "colour_loadable striped_raw_output striped_raw_input [''a.tif'']"
    by (simp add: colour_loadable_def holds_colour_def striped_raw_output_def
        striped_raw_input_def)
  note P = priv_process_data_props [of striped_raw_output striped_raw_input "[''a.tif'']"
      TRAIN empty_fs]
  from P cl ready_train have ok: "fst ?R = None" by blast
  with P have "written (snd ?R) =
      partition_writes striped_raw_output striped_raw_input [''a.tif''] TRAIN"
    by (simp add: pair_writes_positions empty_fs_def)
  with ok w pp show ?thesis by simp
qed

text \<open>
  C6, amended. Within a partition, \<^verbatim>\<open>_process_data\<close> names the files it writes by one
  counter that starts at zero and is shared by the two roles. When it raises no exception,
  the files it adds are, in this order, those of \<open>partition_writes\<close>: for the \<open>N\<close>-th
  entry \<open>(file, input offset, label offset)\<close> of \<open>paired_positions\<close>, counted from zero
  across all files of the partition, the tile of the input image of \<open>file\<close> at the input
  offset as \<^verbatim>\<open>N.png\<close> in the input directory, then the tile of the label image of the
  same \<open>file\<close> at the label offset as \<^verbatim>\<open>N.png\<close> in the output directory. When it raises
  an exception, the files it added are a prefix of that list. It raises none when every
  file holds a three-axis array in both directories and the two directories of the
  partition exist after \<^verbatim>\<open>_makedirs\<close>. The two offsets of an entry are equal when the two
  images of every file have the same numbers of rows and columns, not otherwise; distinct
  counters give distinct names.
\<close>

theorem priv_process_data_writes:
  "(fst (priv_process_data raw_output raw_input file_names partition_name fs) = None \<longrightarrow>
      written (snd (priv_process_data raw_output raw_input file_names partition_name fs)) =
        written fs @ partition_writes raw_output raw_input file_names partition_name) \<and>
   (\<exists>m. written (snd (priv_process_data raw_output raw_input file_names partition_name fs)) =
      written fs @ take m (partition_writes raw_output raw_input file_names partition_name)) \<and>
   (colour_loadable raw_output raw_input file_names \<and> partition_ready fs partition_name \<longrightarrow>
      fst (priv_process_data raw_output raw_input file_names partition_name fs) = None) \<and>
   (matched raw_output raw_input file_names \<longrightarrow>
      (\<forall>(file_name, input_offset, output_offset)
          \<in> set (paired_positions raw_output raw_input file_names).
         input_offset = output_offset)) \<and>
   (\<forall>m n. str_nat m = str_nat n \<longrightarrow> m = n)"
proof -
  note P = priv_process_data_props [of raw_output raw_input file_names partition_name fs,
      unfolded pair_writes_positions]
  have "\<forall>(file_name, input_offset, output_offset)
          \<in> set (paired_positions raw_output raw_input file_names).
         input_offset = output_offset"
    if "matched raw_output raw_input file_names"
    using matched_positions [OF that] by auto
  moreover have "\<forall>m n. str_nat m = str_nat n \<longrightarrow> m = n"
    by (simp add: str_nat_inject)
  ultimately show ?thesis using P by blast
qed

theorem priv_process_data_writes_witness:
  "matched matched_raw_output matched_raw_input [''a.tif'', ''b.tif''] \<and>
   colour_loadable matched_raw_output matched_raw_input [''a.tif'', ''b.tif''] \<and>
   partition_ready empty_fs TRAIN \<and>
   fst (priv_process_data matched_raw_output matched_raw_input [''a.tif'', ''b.tif''] TRAIN
          empty_fs) = None \<and>
   written (snd (priv_process_data matched_raw_output matched_raw_input [''a.tif'', ''b.tif'']
                   TRAIN empty_fs)) =
     [(''/opt/data/processed_data/vaihingen/train/input/bogus_class/0.png'',
       replicate 200 (replicate 200 [1, 1, 1])),
      (''/opt/data/processed_data/vaihingen/train/output/bogus_class/0.png'',
       replicate 200 (replicate 200 [255, 0, 0])),
      (''/opt/data/processed_data/vaihingen/train/input/bogus_class/1.png'',
       replicate 200 (replicate 200 [1, 1, 1])),
      (''/opt/data/processed_data/vaihingen/train/output/bogus_class/1.png'',
       replicate 200 (replicate 200 [255, 0, 0])),
      (''/opt/data/processed_data/vaihingen/train/input/bogus_class/2.png'',
       replicate 200 (replicate 200 [2, 2, 2])),
      (''/opt/data/processed_data/vaihingen/train/output/bogus_class/2.png'',
       replicate 200 (replicate 200 [0, 0, 255]))] \<and>
   paired_positions matched_raw_output matched_raw_input [''a.tif'', ''b.tif''] =
     [(''a.tif'', (0, 0), (0, 0)), (''a.tif'', (0, 100), (0, 100)), (''b.tif'', (0, 0), (0, 0))] \<and>
   str_nat 2 = ''2''"
proof -
  let ?names = "[''a.tif'', ''b.tif'']"
  let ?R = "priv_process_data matched_raw_output matched_raw_input ?names TRAIN empty_fs"
  have im: "file_image matched_raw_input ''a.tif'' = replicate 200 (replicate 300 [1, 1, 1])"
    "file_image matched_raw_input ''b.tif'' = replicate 200 (replicate 200 [2, 2, 2])"
    "file_image matched_raw_output ''a.tif'' = replicate 200 (replicate 300 [255, 0, 0])"
    "file_image matched_raw_output ''b.tif'' = replicate 200 (replicate 200 [0, 0, 255])"
    by (simp_all add: file_image_def matched_raw_input_def matched_raw_output_def)
  have sc: "shape_cols (replicate 200 (replicate n p)) = n" for n and p :: "nat list"
    using shape_cols_replicate [of 200 "replicate n p" "[]"] by simp
  have off: "image_offsets (replicate 200 (replicate 300 p)) = [(0, 0), (0, 100)]"
    "image_offsets (replicate 200 (replicate 200 p)) = [(0, 0)]" for p :: "nat list"
    by (simp_all add: image_offsets_def shape_rows_replicate sc tile_size_def tile_stride_def
        tile_offsets_200 tile_offsets_200_300)
  have m: "matched matched_raw_output matched_raw_input ?names"
    by (simp add: matched_def same_shape_def im shape_rows_replicate sc)
  have cl: "colour_loadable matched_raw_output matched_raw_input ?names"
    by (simp add: colour_loadable_def holds_colour_def matched_raw_output_def
        matched_raw_input_def)
  have pp: "paired_positions matched_raw_output matched_raw_input ?names =
      [(''a.tif'', (0, 0), (0, 0)), (''a.tif'', (0, 100), (0, 100)), (''b.tif'', (0, 0), (0, 0))]"
    by (simp add: paired_positions_def file_offsets_def im off)
  have w: "partition_writes matched_raw_output matched_raw_input ?names TRAIN =
     [(''/opt/data/processed_data/vaihingen/train/input/bogus_class/0.png'',
       replicate 200 (replicate 200 [1, 1, 1])),
      (''/opt/data/processed_data/vaihingen/train/output/bogus_class/0.png'',
       replicate 200 (replicate 200 [255, 0, 0])),
      (''/opt/data/processed_data/vaihingen/train/input/bogus_class/1.png'',
       replicate 200 (replicate 200 [1, 1, 1])),
      (''/opt/data/processed_data/vaihingen/train/output/bogus_class/1.png'',
       replicate 200 (replicate 200 [255, 0, 0])),
      (''/opt/data/processed_data/vaihingen/train/input/bogus_class/2.png'',
       replicate 200 (replicate 200 [2, 2, 2])),
      (''/opt/data/processed_data/vaihingen/train/output/bogus_class/2.png'',
       replicate 200 (replicate 200 [0, 0, 255]))]"
    unfolding partition_writes_def pp
    by (simp add: im slice2_replicate tile_size_def str_nat_digits proc_paths tile_file_names)
  note T = priv_process_data_writes [of matched_raw_output matched_raw_input ?names TRAIN
      empty_fs]
  from T cl ready_train have ok: "fst ?R = None" by blast
  with T have "written (snd ?R) =
      written empty_fs @ partition_writes matched_raw_output matched_raw_input ?names TRAIN"
    by blast
  then have "written (snd ?R) =
      partition_writes matched_raw_output matched_raw_input ?names TRAIN"
    by (simp add: empty_fs_def)
  with ok w pp m cl ready_train show ?thesis by (simp add: str_nat_digits)
qed





section \<open>The batch pipeline adapter\<close>

lemma make_input_output_generator_output:
  "snd (make_input_output_generator flow base_path batch_size k) =
     rgb_to_one_hot_batch
       (flow \<lparr>gen_path = path_join base_path INPUT, gen_batch_size = batch_size,
              gen_shuffle = True, gen_augment = True, gen_scale = False\<rparr> k)"
  by (simp add: make_input_output_generator_def make_data_generator_def Let_def)

lemma rgb_to_one_hot_batch_pixel:
  "rgb_to_one_hot_batch [[[p]]] = [[[labelToOneHot_spec (rgbToLabel_spec p)]]]"
  by (simp add: rgb_to_one_hot_batch_def rgb_to_label_batch_pointwise
      label_to_one_hot_batch_pointwise)

text \<open>
  C10. The code at the train partition, batch size 32: the output element of the first
  pair is the one-hot encoding of the tile read from the input directory (a pixel that
  matches no key, hence class 0), not that of the label tile in the output directory
  (Clutter, class 5). The specification's claim, that the labels are read from the output
  directory, is what the comment in the source intends; the code passes the input path
  to both generators.
\<close>

theorem make_input_output_generator_reads_input:
  "snd (make_input_output_generator train_flow (path_join proc_data_path TRAIN) 32 0) =
     [[[[1, 0, 0, 0, 0, 0]]]] \<and>
   rgb_to_one_hot_batch
     (train_flow \<lparr>gen_path = path_join (path_join proc_data_path TRAIN) OUTPUT,
                  gen_batch_size = 32, gen_shuffle = True, gen_augment = True,
                  gen_scale = False\<rparr> 0) =
     [[[[0, 0, 0, 0, 0, 1]]]]"
proof -
  have ne: "path_join (path_join proc_data_path TRAIN) INPUT \<noteq>
      path_join (path_join proc_data_path TRAIN) OUTPUT"
    by (simp add: path_join_def proc_data_path_def data_path_def TRAIN_def INPUT_def OUTPUT_def)
  have a: "labelToOneHot_spec (rgbToLabel_spec (12, 34, 56)) = [1, 0, 0, 0, 0, 0]"
    by (simp add: rgbToLabel_spec_def labelToOneHot_spec_def label_keys_def valid_label_def
        nb_labels_def upt_rec)
  have b: "labelToOneHot_spec (rgbToLabel_spec (255, 0, 0)) = [0, 0, 0, 0, 0, 1]"
    by (simp add: rgbToLabel_spec_def labelToOneHot_spec_def label_keys_def valid_label_def
        nb_labels_def upt_rec)
  show ?thesis
    unfolding make_input_output_generator_output
    using ne by (simp add: train_flow_def rgb_to_one_hot_batch_pixel a b)
qed

end

